theory Spec2Isabelle
  imports Main "HOL-Library.Word"
begin

section \<open>The xenomint state engine\<close>

text \<open>
  A shallow embedding of package \<open>xenomint\<close>'s \<open>State\<close>: the log counter, the savepoint
  manager, the read, write and replay paths and the block committer. Every method of
  \<open>State\<close> becomes a function that takes the state and returns the updated one.

  The storage backend is outside the package. It is represented by the sequence of calls
  the engine has made on it (field \<open>strg\<close>); what the backend answers to a call is given
  by an environment \<open>env\<close>, as a function of the calls made before. The read-write lock
  of \<open>State\<close> is not represented: each function below is one critical section.
\<close>

subsection \<open>Data model\<close>

type_synonym uint64 = "64 word"
type_synonym int64 = "64 word"
type_synonym uint32 = "32 word"
type_synonym int32 = "32 word"

text \<open>The dynamic values (Go's \<open>interface{}\<close>) handed to the driver as arguments
  and scanned from rows.\<close>

datatype gvalue = Uint64Val uint64 | Int64Val int64 | StringVal string | NilVal

datatype QueryType = ReadQuery | WriteQuery | InvalidQuery

text \<open>Wrapping contexts of \<open>errors.Wrap\<close>/\<open>errors.Wrapf\<close>, one for each format string.\<close>

datatype wrapctx =
    QueryAtFailed nat            \<comment> \<open>\<open>"query at #%d failed"\<close>\<close>
  | ExecuteAtFailed nat          \<comment> \<open>\<open>"execute at #%d failed"\<close>\<close>
  | OpenTxFailed                 \<comment> \<open>\<open>"open tx failed"\<close>\<close>
  | LocalVsReplaying uint64 uint64  \<comment> \<open>\<open>"local id %d vs replaying id %d"\<close>\<close>
  | ReplayBlockAt nat nat        \<comment> \<open>\<open>"replay block at %d:%d"\<close>\<close>
  | ExecuteAtBlockFailed nat nat \<comment> \<open>\<open>"execute at %d:%d failed"\<close>\<close>

datatype error =
    ErrMissingParent
  | ErrQueryConflict
  | ErrInvalidRequest
  | ExternalError string         \<comment> \<open>an error of the translator or of the backend\<close>
  | Wrapf error wrapctx

text \<open>\<open>errors.Cause\<close>: the innermost error of a wrapped one.\<close>

fun Cause :: "error \<Rightarrow> error" where
  "Cause (Wrapf err c) = Cause err"
| "Cause err = err"

record Query =
  Pattern :: string
  Args :: "(string \<times> gvalue) list"

record RequestHeader =
  QueryType :: QueryType
  DatabaseID :: string
  Requester :: string
  Envelope :: string

record Request =
  ReqHeader :: RequestHeader
  Queries :: "Query list"

record ResponseHeader =
  RequestEcho :: RequestHeader
  NodeID :: string
  Timestamp :: nat
  RowCount :: uint64
  LogOffset :: uint64
  AffectedRows :: int64
  LastInsertID :: int64

record ResponsePayload =
  Columns :: "string list"
  DeclTypes :: "string list"
  Rows :: "gvalue list list"

record Response =
  Header :: ResponseHeader
  Payload :: ResponsePayload

record QueryTracker =
  Req :: Request
  Resp :: "Response option"

record QueryAsTx =
  TxRequest :: Request
  TxResponse :: ResponseHeader

record Block =
  QueryTxs :: "QueryAsTx list"
  FailedReqs :: "Request list"

definition emptyPayload :: ResponsePayload where
  "emptyPayload = \<lparr>Columns = [], DeclTypes = [], Rows = []\<rparr>"

subsection \<open>The storage backend\<close>

text \<open>
  A call on the backend. A transaction is named by the number of calls made before the
  \<open>Begin\<close> that opened it. Savepoints and rollbacks reach the backend through \<open>Exec\<close>.
\<close>

datatype sqlcall =
    WriterBegin                        \<comment> \<open>\<open>strg.Writer().Begin()\<close>\<close>
  | DirtyBegin                         \<comment> \<open>\<open>strg.DirtyReader().Begin()\<close>\<close>
  | TxExec nat string "gvalue list"    \<comment> \<open>\<open>tx.Exec\<close>, \<open>tx.ExecContext\<close>\<close>
  | TxQuery nat string "gvalue list"   \<comment> \<open>\<open>tx.QueryContext\<close> and the scan of its rows\<close>
  | TxCommit nat
  | TxRollback nat

record sqlResult =
  rowsAffected :: int64     \<comment> \<open>first value of \<open>res.RowsAffected()\<close>\<close>
  lastInsertId :: int64     \<comment> \<open>first value of \<open>res.LastInsertId()\<close>\<close>

record sqlRows =
  colNames :: "string list"
  colTypes :: "string list"
  rowData :: "gvalue list list"

text \<open>
  What is outside the package: the query translator \<open>convertQueryAndBuildArgs\<close>, the
  backend's answers (each a function of the calls made so far), and the clock.
\<close>

record env =
  convertQueryAndBuildArgs ::
    "string \<Rightarrow> (string \<times> gvalue) list \<Rightarrow> error + (bool \<times> string \<times> gvalue list)"
  execResult :: "sqlcall list \<Rightarrow> nat \<Rightarrow> string \<Rightarrow> gvalue list \<Rightarrow> error + sqlResult"
  queryResult :: "sqlcall list \<Rightarrow> nat \<Rightarrow> string \<Rightarrow> gvalue list \<Rightarrow> error + sqlRows"
  writerBeginResult :: "sqlcall list \<Rightarrow> error option"
  dirtyBeginResult :: "sqlcall list \<Rightarrow> error option"
  commitResult :: "sqlcall list \<Rightarrow> nat \<Rightarrow> error option"
  getLocalTime :: nat

subsection \<open>The query pool\<close>

text \<open>
  The pool's source file is not among the sources; its operations follow the
  specification's section 4.2. The ordered mapping from savepoint id to tracker is an
  association list in the order of enqueueing; a later entry under a key hides an
  earlier one.
\<close>

record pool =
  queries :: "(uint64 \<times> QueryTracker) list"
  failed :: "Request set"
  trackerCount :: int32
  failedRequestCount :: int32

text \<open>Modelled from the spec: \<open>newPool\<close>, the empty pool (pool.go is missing).\<close>

definition newPool :: pool where
  "newPool = \<lparr>queries = [], failed = {}, trackerCount = 0, failedRequestCount = 0\<rparr>"

text \<open>Modelled from the spec: \<open>enqueue(savepoint, tracker)\<close> (pool.go is missing):
  append to the ordered map under \<open>savepoint\<close>; increment tracker count.\<close>

definition enqueue :: "uint64 \<Rightarrow> QueryTracker \<Rightarrow> pool \<Rightarrow> pool" where
  "enqueue sp q p = p\<lparr>queries := queries p @ [(sp, q)], trackerCount := trackerCount p + 1\<rparr>"

text \<open>Modelled from the spec: \<open>setFailed(request)\<close> (pool.go is missing):
  add to failed set; idempotent on equal request identity.\<close>

definition setFailed :: "Request \<Rightarrow> pool \<Rightarrow> pool" where
  "setFailed req p = p\<lparr>failed := insert req (failed p)\<rparr>"

text \<open>Modelled from the spec: \<open>removeFailed(request)\<close> (pool.go is missing):
  drop from failed set.\<close>

definition removeFailed :: "Request \<Rightarrow> pool \<Rightarrow> pool" where
  "removeFailed req p = p\<lparr>failed := failed p - {req}\<rparr>"

text \<open>The tracker the ordered mapping holds at a savepoint.\<close>

definition trackerAt :: "uint64 \<Rightarrow> pool \<Rightarrow> QueryTracker option" where
  "trackerAt sp p = map_of (rev (queries p)) sp"

text \<open>Modelled from the spec: \<open>match(savepoint, request)\<close> (pool.go is missing):
  true iff a tracker at \<open>savepoint\<close> exists and its Request is equal to the given one.\<close>

definition match :: "uint64 \<Rightarrow> Request \<Rightarrow> pool \<Rightarrow> bool" where
  "match sp req p = (case trackerAt sp p of None \<Rightarrow> False | Some q \<Rightarrow> Req q = req)"

text \<open>Modelled from the spec: \<open>matchLast(savepoint)\<close> (pool.go is missing):
  true iff the highest-keyed savepoint in the pool equals \<open>savepoint\<close>.\<close>

definition matchLast :: "uint64 \<Rightarrow> pool \<Rightarrow> bool" where
  "matchLast sp p =
     (case map fst (queries p) of [] \<Rightarrow> False | k # ks \<Rightarrow> fold max ks k = sp)"

text \<open>Modelled from the spec: \<open>truncate(upTo)\<close> (pool.go is missing):
  remove all trackers with key \<open>\<le> upTo\<close>. (Named \<open>truncate_pool\<close>: every record
  declares a constant \<open>truncate\<close> of its own.)\<close>

definition truncate_pool :: "uint64 \<Rightarrow> pool \<Rightarrow> pool" where
  "truncate_pool upTo p = p\<lparr>queries := filter (\<lambda>(k, q). upTo < k) (queries p)\<rparr>"

subsection \<open>State\<close>

record State =
  strg :: "sqlcall list"
  pool :: pool
  closed :: bool
  nodeID :: string
  unc :: "nat option"        \<comment> \<open>the uncommitted transaction; \<open>None\<close> is Go's \<open>nil\<close>\<close>
  origin :: uint64
  cmpoint :: uint64
  current :: uint64
  hasSchemaChange :: uint32

text \<open>
  The outcome of a method: it panics (a method is called on a \<open>nil\<close> transaction), it
  returns an error, or it returns normally; the last two with the state they leave.
\<close>

datatype 'a outcome = Panic | Err State error | Ok State 'a

definition incSeq :: "State \<Rightarrow> State" where
  "incSeq s = s\<lparr>current := current s + 1\<rparr>"

definition getID :: "State \<Rightarrow> uint64" where
  "getID s = current s"

definition setNextTxID :: "State \<Rightarrow> State" where
  "setNextTxID s = s\<lparr>origin := getID s, cmpoint := getID s\<rparr>"

definition setCommitPoint :: "State \<Rightarrow> State" where
  "setCommitPoint s = s\<lparr>cmpoint := getID s\<rparr>"

definition rollbackID :: "uint64 \<Rightarrow> State \<Rightarrow> State" where
  "rollbackID ident s = s\<lparr>current := ident\<rparr>"

text \<open>\<open>s.unc.Exec(pattern, args...)\<close> with its result and error discarded.\<close>

definition uncExec :: "string \<Rightarrow> gvalue list \<Rightarrow> State \<Rightarrow> unit outcome" where
  "uncExec pattern args s =
     (case unc s of
        None \<Rightarrow> Panic
      | Some tx \<Rightarrow> Ok (s\<lparr>strg := strg s @ [TxExec tx pattern args]\<rparr>) ())"

definition setSavepoint :: "State \<Rightarrow> uint64 outcome" where
  "setSavepoint s =
     (let savepoint = getID s in
      case uncExec ''SAVEPOINT \"?\"'' [Uint64Val savepoint] s of
        Panic \<Rightarrow> Panic
      | Err s1 err \<Rightarrow> Err s1 err
      | Ok s1 u \<Rightarrow> Ok s1 savepoint)"

definition rollbackTo :: "uint64 \<Rightarrow> State \<Rightarrow> unit outcome" where
  "rollbackTo savepoint s =
     uncExec ''ROLLBACK TO \"?\"'' [Uint64Val savepoint] (rollbackID savepoint s)"

definition writeSingle :: "env \<Rightarrow> Query \<Rightarrow> State \<Rightarrow> sqlResult outcome" where
  "writeSingle e q s =
     (case convertQueryAndBuildArgs e (Pattern q) (Args q) of
        Inl err \<Rightarrow> Err s err
      | Inr (containsDDL, pattern, args) \<Rightarrow>
          (case unc s of
             None \<Rightarrow> Panic
           | Some tx \<Rightarrow>
               (let s1 = s\<lparr>strg := strg s @ [TxExec tx pattern args]\<rparr> in
                case execResult e (strg s) tx pattern args of
                  Inl err \<Rightarrow> Err s1 err
                | Inr res \<Rightarrow>
                    Ok (incSeq (if containsDDL then s1\<lparr>hasSchemaChange := 1\<rparr> else s1)) res)))"

subsection \<open>Read path\<close>

definition readSingle :: "env \<Rightarrow> nat option \<Rightarrow> Query \<Rightarrow> State \<Rightarrow> sqlRows outcome" where
  "readSingle e qer q s =
     (case convertQueryAndBuildArgs e (Pattern q) (Args q) of
        Inl err \<Rightarrow> Err s err
      | Inr (containsDDL, pattern, args) \<Rightarrow>
          (case qer of
             None \<Rightarrow> Panic
           | Some tx \<Rightarrow>
               (let s1 = s\<lparr>strg := strg s @ [TxQuery tx pattern args]\<rparr> in
                case queryResult e (strg s) tx pattern args of
                  Inl err \<Rightarrow> Err s1 err
                | Inr rows \<Rightarrow> Ok s1 rows)))"

text \<open>The loop over \<open>req.Payload.Queries\<close> of \<open>readTx\<close>; it keeps the rows of the last
  query read.\<close>

fun readTxLoop ::
  "env \<Rightarrow> nat option \<Rightarrow> Request \<Rightarrow> nat \<Rightarrow> Query list \<Rightarrow> sqlRows \<Rightarrow> State \<Rightarrow> sqlRows outcome"
where
  "readTxLoop e qer req i [] acc s = Ok s acc"
| "readTxLoop e qer req i (v # vs) acc s =
     (case readSingle e qer v s of
        Panic \<Rightarrow> Panic
      | Err s1 ierr \<Rightarrow> Err (s1\<lparr>pool := setFailed req (pool s1)\<rparr>) (Wrapf ierr (QueryAtFailed i))
      | Ok s1 rows \<Rightarrow> readTxLoop e qer req (Suc i) vs rows s1)"

definition buildReadResponse :: "env \<Rightarrow> Request \<Rightarrow> uint64 \<Rightarrow> sqlRows \<Rightarrow> State \<Rightarrow> Response" where
  "buildReadResponse e req ident rows s =
     \<lparr>Header = \<lparr>RequestEcho = ReqHeader req, NodeID = nodeID s, Timestamp = getLocalTime e,
                 RowCount = of_nat (length (rowData rows)), LogOffset = ident,
                 AffectedRows = 0, LastInsertID = 0\<rparr>,
      Payload = \<lparr>Columns = colNames rows, DeclTypes = colTypes rows, Rows = rowData rows\<rparr>\<rparr>"

text \<open>The deferred calls of \<open>readTx\<close> run when its body has returned, the last deferred
  first: \<open>rollbackTo(id)\<close> on the transactional path, \<open>tx.Rollback()\<close> on the dirty one.\<close>

definition readTx :: "env \<Rightarrow> Request \<Rightarrow> State \<Rightarrow> (QueryTracker \<times> Response) outcome" where
  "readTx e req s =
     (if hasSchemaChange s = 1 then
        (let ident = getID s in
         case setSavepoint s of
           Panic \<Rightarrow> Panic
         | Err s1 err \<Rightarrow> Err s1 err
         | Ok s1 sp \<Rightarrow>
             (case readTxLoop e (unc s1) req 0 (Queries req)
                     \<lparr>colNames = [], colTypes = [], rowData = []\<rparr> s1 of
                Panic \<Rightarrow> Panic
              | Err s2 err \<Rightarrow>
                  (case rollbackTo ident s2 of
                     Panic \<Rightarrow> Panic
                   | Err s3 err' \<Rightarrow> Err s3 err
                   | Ok s3 u \<Rightarrow> Err s3 err)
              | Ok s2 rows \<Rightarrow>
                  (case rollbackTo ident s2 of
                     Panic \<Rightarrow> Panic
                   | Err s3 err' \<Rightarrow> Err s3 err'
                   | Ok s3 u \<Rightarrow>
                       Ok s3 (\<lparr>Req = req, Resp = None\<rparr>, buildReadResponse e req ident rows s2))))
      else
        (let ident = getID s; s1 = s\<lparr>strg := strg s @ [DirtyBegin]\<rparr> in
         case dirtyBeginResult e (strg s) of
           Some ierr \<Rightarrow> Err s1 (Wrapf ierr OpenTxFailed)
         | None \<Rightarrow>
             (let tx = length (strg s) in
              case readTxLoop e (Some tx) req 0 (Queries req)
                     \<lparr>colNames = [], colTypes = [], rowData = []\<rparr> s1 of
                Panic \<Rightarrow> Panic
              | Err s2 err \<Rightarrow> Err (s2\<lparr>strg := strg s2 @ [TxRollback tx]\<rparr>) err
              | Ok s2 rows \<Rightarrow>
                  Ok (s2\<lparr>strg := strg s2 @ [TxRollback tx]\<rparr>)
                     (\<lparr>Req = req, Resp = None\<rparr>, buildReadResponse e req ident rows s2))))"

subsection \<open>Write path\<close>

text \<open>The loop over \<open>req.Payload.Queries\<close> of \<open>write\<close>, with \<open>totalAffectedRows\<close> and
  \<open>lastInsertID\<close> as accumulators.\<close>

fun writeLoop ::
  "env \<Rightarrow> Request \<Rightarrow> uint64 \<Rightarrow> nat \<Rightarrow> Query list \<Rightarrow> int64 \<times> int64 \<Rightarrow> State
     \<Rightarrow> (int64 \<times> int64) outcome"
where
  "writeLoop e req savepoint i [] acc s = Ok s acc"
| "writeLoop e req savepoint i (v # vs) (totalAffectedRows, lastInsertID) s =
     (case writeSingle e v s of
        Panic \<Rightarrow> Panic
      | Err s1 ierr \<Rightarrow>
          (case rollbackTo savepoint (s1\<lparr>pool := setFailed req (pool s1)\<rparr>) of
             Panic \<Rightarrow> Panic
           | Err s2 err' \<Rightarrow> Err s2 err'
           | Ok s2 u \<Rightarrow> Err s2 (Wrapf ierr (ExecuteAtFailed i)))
      | Ok s1 res \<Rightarrow>
          writeLoop e req savepoint (Suc i) vs
            (totalAffectedRows + rowsAffected res, lastInsertId res) s1)"

text \<open>Method \<open>write\<close> (named \<open>writeRequest\<close> here: \<open>write\<close> is a keyword).\<close>

definition writeRequest :: "env \<Rightarrow> Request \<Rightarrow> State \<Rightarrow> (QueryTracker \<times> Response) outcome" where
  "writeRequest e req s =
     (let query = \<lparr>Req = req, Resp = None\<rparr>; savepoint = getID s in
      case writeLoop e req savepoint 0 (Queries req) (0, 0) s of
        Panic \<Rightarrow> Panic
      | Err s1 err \<Rightarrow> Err s1 err
      | Ok s1 (totalAffectedRows, lastInsertID) \<Rightarrow>
          (case setSavepoint s1 of
             Panic \<Rightarrow> Panic
           | Err s2 err \<Rightarrow> Err s2 err
           | Ok s2 sp \<Rightarrow>
               Ok (s2\<lparr>pool := enqueue savepoint query (pool s2)\<rparr>)
                  (query,
                   \<lparr>Header = \<lparr>RequestEcho = ReqHeader req, NodeID = nodeID s2,
                               Timestamp = getLocalTime e, RowCount = 0, LogOffset = savepoint,
                               AffectedRows = totalAffectedRows, LastInsertID = lastInsertID\<rparr>,
                    Payload = emptyPayload\<rparr>)))"

definition QueryWithContext :: "env \<Rightarrow> Request \<Rightarrow> State \<Rightarrow> (QueryTracker \<times> Response) outcome" where
  "QueryWithContext e req s =
     (case QueryType (ReqHeader req) of
        ReadQuery \<Rightarrow> readTx e req s
      | WriteQuery \<Rightarrow> writeRequest e req s
      | InvalidQuery \<Rightarrow> Err s ErrInvalidRequest)"

subsection \<open>Replay path\<close>

fun replayLoop :: "env \<Rightarrow> uint64 \<Rightarrow> nat \<Rightarrow> Query list \<Rightarrow> State \<Rightarrow> unit outcome" where
  "replayLoop e savepoint i [] s = Ok s ()"
| "replayLoop e savepoint i (v # vs) s =
     (case writeSingle e v s of
        Panic \<Rightarrow> Panic
      | Err s1 ierr \<Rightarrow>
          (case rollbackTo savepoint s1 of
             Panic \<Rightarrow> Panic
           | Err s2 err' \<Rightarrow> Err s2 err'
           | Ok s2 u \<Rightarrow> Err s2 (Wrapf ierr (ExecuteAtFailed i)))
      | Ok s1 res \<Rightarrow> replayLoop e savepoint (Suc i) vs s1)"

definition replay :: "env \<Rightarrow> Request \<Rightarrow> Response \<Rightarrow> State \<Rightarrow> unit outcome" where
  "replay e req resp s =
     (let query = \<lparr>Req = req, Resp = Some resp\<rparr>; savepoint = getID s in
      if LogOffset (Header resp) \<noteq> savepoint then
        Err s (Wrapf ErrQueryConflict (LocalVsReplaying savepoint (LogOffset (Header resp))))
      else
        (case replayLoop e savepoint 0 (Queries req) s of
           Panic \<Rightarrow> Panic
         | Err s1 err \<Rightarrow> Err s1 err
         | Ok s1 u \<Rightarrow>
             (case setSavepoint s1 of
                Panic \<Rightarrow> Panic
              | Err s2 err \<Rightarrow> Err s2 err
              | Ok s2 sp \<Rightarrow> Ok (s2\<lparr>pool := enqueue savepoint query (pool s2)\<rparr>) ())))"

definition ReplayWithContext :: "env \<Rightarrow> Request \<Rightarrow> Response \<Rightarrow> State \<Rightarrow> unit outcome" where
  "ReplayWithContext e req resp s =
     (case QueryType (ReqHeader req) of
        ReadQuery \<Rightarrow> Ok s ()
      | WriteQuery \<Rightarrow> replay e req resp s
      | InvalidQuery \<Rightarrow> Err s ErrInvalidRequest)"

subsection \<open>Block committer\<close>

definition uncCommit :: "env \<Rightarrow> State \<Rightarrow> unit outcome" where
  "uncCommit e s =
     (case unc s of
        None \<Rightarrow> Panic
      | Some tx \<Rightarrow>
          (let s1 = s\<lparr>strg := strg s @ [TxCommit tx]\<rparr> in
           case commitResult e (strg s) tx of
             Some err \<Rightarrow> Err s1 err
           | None \<Rightarrow> Ok (s1\<lparr>hasSchemaChange := 0\<rparr>) ()))"

text \<open>The inner loop of \<open>ReplayBlockWithContext\<close>, over the queries of block entry \<open>i\<close>.\<close>

fun replayBlockQueries ::
  "env \<Rightarrow> nat \<Rightarrow> uint64 \<Rightarrow> Request \<Rightarrow> nat \<Rightarrow> Query list \<Rightarrow> State \<Rightarrow> unit outcome"
where
  "replayBlockQueries e i lastsp req j [] s = Ok s ()"
| "replayBlockQueries e i lastsp req j (v # vs) s =
     (if QueryType (ReqHeader req) = ReadQuery then
        replayBlockQueries e i lastsp req (Suc j) vs s
      else if QueryType (ReqHeader req) \<noteq> WriteQuery then
        (case rollbackTo lastsp s of
           Panic \<Rightarrow> Panic
         | Err s1 err' \<Rightarrow> Err s1 err'
         | Ok s1 u \<Rightarrow> Err s1 (Wrapf ErrInvalidRequest (ReplayBlockAt i j)))
      else
        (case writeSingle e v s of
           Panic \<Rightarrow> Panic
         | Err s1 ierr \<Rightarrow>
             (case rollbackTo lastsp s1 of
                Panic \<Rightarrow> Panic
              | Err s2 err' \<Rightarrow> Err s2 err'
              | Ok s2 u \<Rightarrow> Err s2 (Wrapf ierr (ExecuteAtBlockFailed i j)))
         | Ok s1 res \<Rightarrow> replayBlockQueries e i lastsp req (Suc j) vs s1))"

text \<open>The outer loop of \<open>ReplayBlockWithContext\<close>, over \<open>block.QueryTxs\<close> from index \<open>i\<close>
  on; it carries and returns \<open>lastsp\<close>.\<close>

fun replayBlockLoop :: "env \<Rightarrow> nat \<Rightarrow> QueryAsTx list \<Rightarrow> uint64 \<Rightarrow> State \<Rightarrow> uint64 outcome" where
  "replayBlockLoop e i [] lastsp s = Ok s lastsp"
| "replayBlockLoop e i (q # qs) lastsp0 s =
     (let query = \<lparr>Req = TxRequest q,
                   Resp = Some \<lparr>Header = TxResponse q, Payload = emptyPayload\<rparr>\<rparr>;
          lastsp = getID s in
      if LogOffset (TxResponse q) > lastsp then Err s ErrMissingParent
      else if LogOffset (TxResponse q) < lastsp then
        (if \<not> match (LogOffset (TxResponse q)) (TxRequest q) (pool s) then Err s ErrQueryConflict
         else replayBlockLoop e (Suc i) qs lastsp s)
      else
        (case replayBlockQueries e i lastsp (TxRequest q) 0 (Queries (TxRequest q)) s of
           Panic \<Rightarrow> Panic
         | Err s1 err \<Rightarrow> Err s1 err
         | Ok s1 u \<Rightarrow>
             (case setSavepoint s1 of
                Panic \<Rightarrow> Panic
              | Err s2 err \<Rightarrow> Err s2 err
              | Ok s2 sp \<Rightarrow>
                  replayBlockLoop e (Suc i) qs lastsp
                    (s2\<lparr>pool := enqueue lastsp query (pool s2)\<rparr>))))"

definition ReplayBlockWithContext :: "env \<Rightarrow> Block \<Rightarrow> State \<Rightarrow> unit outcome" where
  "ReplayBlockWithContext e block s =
     (case replayBlockLoop e 0 (QueryTxs block) 0 s of
        Panic \<Rightarrow> Panic
      | Err s1 err \<Rightarrow> Err s1 err
      | Ok s1 lastsp \<Rightarrow>
          (let s2 = s1\<lparr>pool := fold removeFailed (FailedReqs block) (pool s1)\<rparr> in
           case
             (if matchLast lastsp (pool s2) then
                (case uncCommit e s2 of
                   Panic \<Rightarrow> Panic
                 | Err s3 err \<Rightarrow> Err s3 err
                 | Ok s3 u \<Rightarrow>
                     (let s4 = s3\<lparr>strg := strg s3 @ [WriterBegin]\<rparr> in
                      case writerBeginResult e (strg s3) of
                        Some err \<Rightarrow> Err (s4\<lparr>unc := None\<rparr>) err
                      | None \<Rightarrow> Ok (setNextTxID (s4\<lparr>unc := Some (length (strg s3))\<rparr>)) ()))
              else Ok (setCommitPoint s2) ())
           of
             Panic \<Rightarrow> Panic
           | Err s5 err \<Rightarrow> Err s5 err
           | Ok s5 u \<Rightarrow>
               (case setSavepoint s5 of
                  Panic \<Rightarrow> Panic
                | Err s6 err \<Rightarrow> Err s6 err
                | Ok s6 sp \<Rightarrow> Ok (s6\<lparr>pool := truncate_pool lastsp (pool s6)\<rparr>) ())))"

subsection \<open>Auxiliary notions for the properties\<close>

text \<open>The queries of a request run one after the other through \<open>writeSingle\<close>, stopping at
  the first that does not succeed; the results of the statements are collected.\<close>

fun runQueries :: "env \<Rightarrow> Query list \<Rightarrow> State \<Rightarrow> sqlResult list outcome" where
  "runQueries e [] s = Ok s []"
| "runQueries e (v # vs) s =
     (case writeSingle e v s of
        Panic \<Rightarrow> Panic
      | Err s1 ierr \<Rightarrow> Err s1 ierr
      | Ok s1 res \<Rightarrow>
          (case runQueries e vs s1 of
             Panic \<Rightarrow> Panic
           | Err s2 ierr \<Rightarrow> Err s2 ierr
           | Ok s2 rs \<Rightarrow> Ok s2 (res # rs)))"

text \<open>A sequence of write requests, each of which has to succeed.\<close>

fun writeAll :: "env \<Rightarrow> Request list \<Rightarrow> State \<Rightarrow> Response list outcome" where
  "writeAll e [] s = Ok s []"
| "writeAll e (req # reqs) s =
     (case writeRequest e req s of
        Panic \<Rightarrow> Panic
      | Err s1 err \<Rightarrow> Err s1 err
      | Ok s1 r \<Rightarrow>
          (case writeAll e reqs s1 of
             Panic \<Rightarrow> Panic
           | Err s2 err \<Rightarrow> Err s2 err
           | Ok s2 rs \<Rightarrow> Ok s2 (snd r # rs)))"

definition succeeded :: "'a outcome \<Rightarrow> bool" where
  "succeeded r = (case r of Ok s x \<Rightarrow> True | Err s err \<Rightarrow> False | Panic \<Rightarrow> False)"

definition isCommit :: "sqlcall \<Rightarrow> bool" where
  "isCommit c = (case c of TxCommit tx \<Rightarrow> True | _ \<Rightarrow> False)"

definition isQueryOn :: "nat \<Rightarrow> sqlcall \<Rightarrow> bool" where
  "isQueryOn tx c = (case c of TxQuery tx' pattern args \<Rightarrow> tx' = tx | _ \<Rightarrow> False)"

definition savepointCall :: "nat \<Rightarrow> uint64 \<Rightarrow> sqlcall" where
  "savepointCall tx ident = TxExec tx ''SAVEPOINT \"?\"'' [Uint64Val ident]"

definition rollbackToCall :: "nat \<Rightarrow> uint64 \<Rightarrow> sqlcall" where
  "rollbackToCall tx ident = TxExec tx ''ROLLBACK TO \"?\"'' [Uint64Val ident]"

definition stateAfter :: "'a outcome \<Rightarrow> State option" where
  "stateAfter r = (case r of Panic \<Rightarrow> None | Err s err \<Rightarrow> Some s | Ok s x \<Rightarrow> Some s)"

text \<open>Whether the translator flags the statement of a query as DDL.\<close>

definition containsDDL :: "env \<Rightarrow> Query \<Rightarrow> bool" where
  "containsDDL e q =
     (case convertQueryAndBuildArgs e (Pattern q) (Args q) of
        Inl err \<Rightarrow> False
      | Inr (ddl, pattern, args) \<Rightarrow> ddl)"

text \<open>Whether the statement of a query executes successfully in a state: it translates,
  and the backend accepts it on the open transaction.\<close>

definition executes :: "env \<Rightarrow> Query \<Rightarrow> State \<Rightarrow> bool" where
  "executes e q s =
     (case convertQueryAndBuildArgs e (Pattern q) (Args q) of
        Inl err \<Rightarrow> False
      | Inr (ddl, pattern, args) \<Rightarrow>
          (case unc s of
             None \<Rightarrow> False
           | Some tx \<Rightarrow>
               (case execResult e (strg s) tx pattern args of
                  Inl err \<Rightarrow> False
                | Inr res \<Rightarrow> True)))"

text \<open>The state after \<open>rollbackTo(ident)\<close> on the open transaction \<open>tx\<close>.\<close>

definition rolledBack :: "nat \<Rightarrow> uint64 \<Rightarrow> State \<Rightarrow> State" where
  "rolledBack tx ident s = s\<lparr>current := ident, strg := strg s @ [rollbackToCall tx ident]\<rparr>"

text \<open>What no step of the reconciliation does: commit, or change the transaction handle,
  the origin or the commit point.\<close>

definition sameTx :: "State \<Rightarrow> State \<Rightarrow> bool" where
  "sameTx s s' \<longleftrightarrow>
     filter isCommit (strg s') = filter isCommit (strg s) \<and> unc s' = unc s \<and>
     origin s' = origin s \<and> cmpoint s' = cmpoint s"

text \<open>The writer state that a read has to leave alone: the counters, the schema-change
  flag, the handle of the open transaction and the pooled trackers.\<close>

definition sameWriter :: "State \<Rightarrow> State \<Rightarrow> bool" where
  "sameWriter s s' \<longleftrightarrow>
     current s' = current s \<and> origin s' = origin s \<and> cmpoint s' = cmpoint s \<and>
     hasSchemaChange s' = hasSchemaChange s \<and> unc s' = unc s \<and>
     queries (pool s') = queries (pool s)"

subsection \<open>A concrete environment and concrete requests\<close>

text \<open>
  A small backend for evaluating the functions above: the translator rejects the pattern
  \<open>BAD\<close> and flags \<open>CREATE\<close> as DDL; the backend refuses the statement \<open>FAIL\<close>, reports
  one affected row for any other statement, with the number of calls made so far as
  last insert id, and answers every query with one row.
\<close>

definition demoEnv :: env where
  "demoEnv =
     \<lparr>convertQueryAndBuildArgs =
        (\<lambda>pattern args.
           if pattern = ''BAD'' then Inl (ExternalError ''translate'')
           else Inr (pattern = ''CREATE'', pattern, map snd args)),
      execResult =
        (\<lambda>calls tx pattern args.
           if pattern = ''FAIL'' then Inl (ExternalError ''exec'')
           else Inr \<lparr>rowsAffected = 1, lastInsertId = of_nat (length calls)\<rparr>),
      queryResult =
        (\<lambda>calls tx pattern args.
           if pattern = ''FAIL'' then Inl (ExternalError ''query'')
           else Inr \<lparr>colNames = [''n''], colTypes = [''INTEGER''], rowData = [[Int64Val 0]]\<rparr>),
      writerBeginResult = (\<lambda>calls. None),
      dirtyBeginResult = (\<lambda>calls. None),
      commitResult = (\<lambda>calls tx. None),
      getLocalTime = 7\<rparr>"

text \<open>The state after \<open>NewState\<close> and \<open>InitTx(100)\<close>.\<close>

definition demoState :: State where
  "demoState =
     \<lparr>strg = [WriterBegin, savepointCall 0 0, savepointCall 0 100], pool = newPool,
      closed = False, nodeID = ''n1'', unc = Some 0, origin = 100, cmpoint = 100,
      current = 100, hasSchemaChange = 0\<rparr>"

definition demoHeader :: "QueryType \<Rightarrow> RequestHeader" where
  "demoHeader ty = \<lparr>QueryType = ty, DatabaseID = ''db'', Requester = ''c1'', Envelope = ''sig''\<rparr>"

definition demoQuery :: "string \<Rightarrow> Query" where
  "demoQuery pattern = \<lparr>Pattern = pattern, Args = []\<rparr>"

definition demoRequest :: "QueryType \<Rightarrow> string list \<Rightarrow> Request" where
  "demoRequest ty patterns = \<lparr>ReqHeader = demoHeader ty, Queries = map demoQuery patterns\<rparr>"

definition demoResponseHeader :: "Request \<Rightarrow> uint64 \<Rightarrow> ResponseHeader" where
  "demoResponseHeader req off =
     \<lparr>RequestEcho = ReqHeader req, NodeID = ''n2'', Timestamp = 3, RowCount = 0,
      LogOffset = off, AffectedRows = 1, LastInsertID = 0\<rparr>"

definition demoResponse :: "Request \<Rightarrow> uint64 \<Rightarrow> Response" where
  "demoResponse req off = \<lparr>Header = demoResponseHeader req off, Payload = emptyPayload\<rparr>"

text \<open>The state after the write request \<open>INSERT\<close> on \<open>demoState\<close>: the request is pooled
  at 100 and the counter is 101.\<close>

definition demoPooled :: State where
  "demoPooled =
     demoState\<lparr>strg := strg demoState @ [TxExec 0 ''INSERT'' [], savepointCall 0 101],
                pool := enqueue 100 \<lparr>Req = demoRequest WriteQuery [''INSERT''], Resp = None\<rparr> newPool,
                current := 101\<rparr>"

definition demoTx :: "Request \<Rightarrow> uint64 \<Rightarrow> QueryAsTx" where
  "demoTx req off = \<lparr>TxRequest = req, TxResponse = demoResponseHeader req off\<rparr>"

section \<open>Properties\<close>

subsection \<open>Savepoints and single statements\<close>

lemma rollbackTo_Some:
  "unc s = Some tx \<Longrightarrow> rollbackTo ident s = Ok (rolledBack tx ident s) ()"
  by (simp add: rollbackTo_def uncExec_def rollbackID_def rolledBack_def rollbackToCall_def)

lemma setSavepoint_Some:
  "unc s = Some tx \<Longrightarrow>
   setSavepoint s = Ok (s\<lparr>strg := strg s @ [savepointCall tx (current s)]\<rparr>) (current s)"
  by (simp add: setSavepoint_def uncExec_def getID_def savepointCall_def Let_def)

lemma writeSingle_Ok:
  assumes "writeSingle e q s = Ok s1 res"
  shows "unc s1 = unc s" "pool s1 = pool s" "current s1 = current s + 1"
    "origin s1 = origin s" "cmpoint s1 = cmpoint s" "nodeID s1 = nodeID s" "closed s1 = closed s"
    "filter isCommit (strg s1) = filter isCommit (strg s)"
    "\<exists>tx pattern args. unc s = Some tx \<and> strg s1 = strg s @ [TxExec tx pattern args]"
  using assms
  by (auto simp: writeSingle_def Let_def incSeq_def isCommit_def
           split: sum.splits prod.splits option.splits if_splits)

lemma writeSingle_Err:
  assumes "writeSingle e q s = Err s1 err"
  shows "unc s1 = unc s" "pool s1 = pool s" "current s1 = current s"
    "origin s1 = origin s" "cmpoint s1 = cmpoint s" "nodeID s1 = nodeID s" "closed s1 = closed s"
    "hasSchemaChange s1 = hasSchemaChange s"
    "filter isCommit (strg s1) = filter isCommit (strg s)"
  using assms
  by (auto simp: writeSingle_def Let_def incSeq_def isCommit_def
           split: sum.splits prod.splits option.splits if_splits)

text \<open>
  Claim C9. With a transaction open, \<open>writeSingle\<close> advances the counter by exactly one
  if and only if the statement executes successfully (it translates and the backend
  accepts it); it stores 1 in the schema-change flag exactly when the successfully
  executed statement contains DDL; when the translation or the execution fails, neither
  the counter nor the flag changes.
\<close>

theorem writeSingle_counter_and_flag:
  assumes "unc s = Some tx"
  shows "\<exists>s'. stateAfter (writeSingle e q s) = Some s' \<and>
           succeeded (writeSingle e q s) = executes e q s \<and>
           (current s' = current s + 1) = executes e q s \<and>
           current s' = (if executes e q s then current s + 1 else current s) \<and>
           hasSchemaChange s' =
             (if executes e q s \<and> containsDDL e q then 1 else hasSchemaChange s)"
  using assms
  by (auto simp: writeSingle_def Let_def incSeq_def stateAfter_def succeeded_def executes_def
        containsDDL_def split: sum.splits prod.splits)

theorem writeSingle_counter_and_flag_witness:
  "unc demoState = Some 0 \<and>
   executes demoEnv (demoQuery ''CREATE'') demoState \<and>
   \<not> executes demoEnv (demoQuery ''FAIL'') demoState \<and>
   (\<exists>s'. stateAfter (writeSingle demoEnv (demoQuery ''CREATE'') demoState) = Some s' \<and>
      current s' = 101 \<and> hasSchemaChange s' = 1) \<and>
   (\<exists>s'. stateAfter (writeSingle demoEnv (demoQuery ''FAIL'') demoState) = Some s' \<and>
      current s' = 100 \<and> hasSchemaChange s' = 0)"
proof -
  have u: "unc demoState = Some 0" by (simp add: demoState_def)
  have x1: "executes demoEnv (demoQuery ''CREATE'') demoState"
    by (simp add: executes_def demoEnv_def demoQuery_def demoState_def)
  have x2: "\<not> executes demoEnv (demoQuery ''FAIL'') demoState"
    by (simp add: executes_def demoEnv_def demoQuery_def demoState_def)
  have d: "containsDDL demoEnv (demoQuery ''CREATE'')"
    by (simp add: containsDDL_def demoEnv_def demoQuery_def)
  have c: "current demoState = 100" "hasSchemaChange demoState = 0"
    by (simp_all add: demoState_def)
  from writeSingle_counter_and_flag [OF u, of demoEnv "demoQuery ''CREATE''"] x1 d c
  have a: "\<exists>s'. stateAfter (writeSingle demoEnv (demoQuery ''CREATE'') demoState) = Some s' \<and>
      current s' = 101 \<and> hasSchemaChange s' = 1"
    by auto
  from writeSingle_counter_and_flag [OF u, of demoEnv "demoQuery ''FAIL''"] x2 c
  have b: "\<exists>s'. stateAfter (writeSingle demoEnv (demoQuery ''FAIL'') demoState) = Some s' \<and>
      current s' = 100 \<and> hasSchemaChange s' = 0"
    by auto
  from u x1 x2 a b show ?thesis by blast
qed

subsection \<open>The loops over the queries of a request\<close>

lemma runQueries_Ok:
  "runQueries e qs s = Ok s1 rs \<Longrightarrow>
     unc s1 = unc s \<and> pool s1 = pool s \<and> current s1 = current s + of_nat (length qs) \<and>
     origin s1 = origin s \<and> cmpoint s1 = cmpoint s \<and> nodeID s1 = nodeID s \<and>
     length rs = length qs \<and> filter isCommit (strg s1) = filter isCommit (strg s)"
proof (induction qs arbitrary: s rs)
  case Nil
  then show ?case by simp
next
  case (Cons v vs)
  from Cons.prems obtain s2 res rs' where
    w: "writeSingle e v s = Ok s2 res" and r: "runQueries e vs s2 = Ok s1 rs'" and rs: "rs = res # rs'"
    by (auto split: outcome.splits)
  from Cons.IH [OF r] writeSingle_Ok [OF w] rs show ?case
    by (simp add: add.assoc add.commute)
qed

lemma writeLoop_success:
  "runQueries e qs s = Ok s1 rs \<Longrightarrow>
   writeLoop e req sp i qs (tot, lastid) s =
     Ok s1 (tot + sum_list (map rowsAffected rs),
            if rs = [] then lastid else lastInsertId (last rs))"
proof (induction qs arbitrary: s rs i tot lastid)
  case Nil
  then show ?case by simp
next
  case (Cons v vs)
  from Cons.prems obtain s2 res rs' where
    w: "writeSingle e v s = Ok s2 res" and r: "runQueries e vs s2 = Ok s1 rs'" and rs: "rs = res # rs'"
    by (auto split: outcome.splits)
  show ?case
    using Cons.IH [OF r, of "Suc i" "tot + rowsAffected res" "lastInsertId res"] w rs
    by (simp add: add.assoc)
qed

lemma writeLoop_failure:
  assumes "runQueries e pre s = Ok sj rs" and "writeSingle e v sj = Err sf ierr"
    and "unc s = Some tx"
  shows "writeLoop e req sp i (pre @ v # post) acc s =
           Err (rolledBack tx sp (sf\<lparr>pool := setFailed req (pool sf)\<rparr>))
               (Wrapf ierr (ExecuteAtFailed (i + length pre)))"
  using assms
proof (induction pre arbitrary: s rs i acc)
  case Nil
  have "unc sf = Some tx" using writeSingle_Err(1) [OF Nil(2)] Nil by simp
  then have "rollbackTo sp (sf\<lparr>pool := setFailed req (pool sf)\<rparr>) =
      Ok (rolledBack tx sp (sf\<lparr>pool := setFailed req (pool sf)\<rparr>)) ()"
    by (simp add: rollbackTo_Some)
  with Nil show ?case by (cases acc) simp
next
  case (Cons u us)
  from Cons.prems(1) obtain s2 res rs' where
    w: "writeSingle e u s = Ok s2 res" and r: "runQueries e us s2 = Ok sj rs'"
    by (auto split: outcome.splits)
  have u2: "unc s2 = Some tx" using writeSingle_Ok(1) [OF w] Cons.prems(3) by simp
  show ?case
    using Cons.IH [OF r Cons.prems(2) u2, of "Suc i"] w
    by (cases acc) simp
qed

lemma writeLoop_Err:
  "writeLoop e req sp i qs acc s = Err s' err \<Longrightarrow>
     current s' = sp \<and> req \<in> failed (pool s') \<and> queries (pool s') = queries (pool s) \<and>
     unc s' = unc s \<and> origin s' = origin s \<and> cmpoint s' = cmpoint s \<and>
     (\<exists>j ierr tx. j < length qs \<and> err = Wrapf ierr (ExecuteAtFailed (i + j)) \<and>
        unc s = Some tx \<and> last (strg s') = rollbackToCall tx sp)"
proof (induction qs arbitrary: s i acc)
  case Nil
  then show ?case by simp
next
  case (Cons v vs)
  obtain tot lastid where acc: "acc = (tot, lastid)" by (cases acc)
  show ?case
  proof (cases "writeSingle e v s")
    case Panic
    with Cons.prems acc show ?thesis by simp
  next
    case (Err s1 ierr)
    note we = writeSingle_Err [OF Err]
    show ?thesis
    proof (cases "unc s")
      case None
      with we(1) have "unc (s1\<lparr>pool := setFailed req (pool s1)\<rparr>) = None" by simp
      then have "rollbackTo sp (s1\<lparr>pool := setFailed req (pool s1)\<rparr>) = Panic"
        by (simp add: rollbackTo_def uncExec_def rollbackID_def)
      with Cons.prems acc Err show ?thesis by simp
    next
      case (Some tx)
      with we(1) have "unc (s1\<lparr>pool := setFailed req (pool s1)\<rparr>) = Some tx" by simp
      from rollbackTo_Some [OF this, of sp] Cons.prems acc Err
      have s': "s' = rolledBack tx sp (s1\<lparr>pool := setFailed req (pool s1)\<rparr>)"
        and e': "err = Wrapf ierr (ExecuteAtFailed i)"
        by simp_all
      from s' e' we Some show ?thesis
        by (auto simp: rolledBack_def setFailed_def intro!: exI [of _ 0])
    qed
  next
    case (Ok s1 res)
    with Cons.prems acc have
      r: "writeLoop e req sp (Suc i) vs (tot + rowsAffected res, lastInsertId res) s1 = Err s' err"
      by simp
    note ih = Cons.IH [OF r]
    note wo = writeSingle_Ok [OF Ok]
    from ih obtain j ierr tx where j: "j < length vs" "err = Wrapf ierr (ExecuteAtFailed (Suc i + j))"
      "unc s1 = Some tx" "last (strg s') = rollbackToCall tx sp"
      by blast
    have "Suc j < length (v # vs) \<and> err = Wrapf ierr (ExecuteAtFailed (i + Suc j)) \<and>
        unc s = Some tx \<and> last (strg s') = rollbackToCall tx sp"
      using j wo(1) by simp
    then have ex: "\<exists>j ierr tx. j < length (v # vs) \<and> err = Wrapf ierr (ExecuteAtFailed (i + j)) \<and>
        unc s = Some tx \<and> last (strg s') = rollbackToCall tx sp"
      by blast
    from ih wo(1-5) have "current s' = sp \<and> req \<in> failed (pool s') \<and>
       queries (pool s') = queries (pool s) \<and>
       unc s' = unc s \<and> origin s' = origin s \<and> cmpoint s' = cmpoint s"
      by simp
    with ex show ?thesis by blast
  qed
qed

subsection \<open>Write path\<close>

lemma writeLoop_Ok:
  "writeLoop e req sp i qs acc s = Ok s1 acc' \<Longrightarrow> \<exists>rs. runQueries e qs s = Ok s1 rs"
proof (induction qs arbitrary: s i acc)
  case Nil
  then show ?case by simp
next
  case (Cons v vs)
  obtain tot lastid where acc: "acc = (tot, lastid)" by (cases acc)
  from Cons.prems acc obtain s2 res where
    w: "writeSingle e v s = Ok s2 res"
    and r: "writeLoop e req sp (Suc i) vs (tot + rowsAffected res, lastInsertId res) s2 = Ok s1 acc'"
    by (auto split: outcome.splits)
  from Cons.IH [OF r] w show ?case by auto
qed

lemma trackerAt_enqueue: "trackerAt sp (enqueue sp q p) = Some q"
  by (simp add: trackerAt_def enqueue_def)

lemma match_enqueue: "match sp (Req q) (enqueue sp q p)"
  by (simp add: match_def trackerAt_enqueue)

lemma writeRequest_Err_loop:
  assumes "writeRequest e req s = Err s' err"
  shows "writeLoop e req (current s) 0 (Queries req) (0, 0) s = Err s' err"
proof (cases "writeLoop e req (current s) 0 (Queries req) (0, 0) s")
  case Panic
  with assms show ?thesis by (simp add: writeRequest_def getID_def Let_def)
next
  case (Err s1 err1)
  with assms show ?thesis by (simp add: writeRequest_def getID_def Let_def)
next
  case (Ok s1 acc)
  with assms show ?thesis
    by (auto simp: writeRequest_def getID_def Let_def setSavepoint_def uncExec_def
          split: prod.splits option.splits)
qed

lemma writeRequest_Ok_offset:
  assumes "writeRequest e req s = Ok s' (ref, resp)"
  shows "LogOffset (Header resp) = current s \<and> trackerAt (current s) (pool s') = Some ref"
  using assms
  by (auto simp: writeRequest_def getID_def Let_def trackerAt_enqueue
        split: outcome.splits prod.splits)

text \<open>
  Claim C4. In the write path, when a query of the request fails (the queries before it
  having executed), the state rolls back to the savepoint taken at entry, so \<open>current\<close>
  is again its value before the request; the request is added to the pool's failed set;
  the error returned is the query's error wrapped with the index of the failing query;
  no tracker is enqueued. Every error of \<open>write\<close> is of this kind.
\<close>

theorem write_failure_rolls_back:
  "(unc s = Some tx \<and> Queries req = pre @ v # post \<and> runQueries e pre s = Ok sj rs \<and>
      writeSingle e v sj = Err sf ierr \<longrightarrow>
      writeRequest e req s =
        Err (rolledBack tx (current s) (sf\<lparr>pool := setFailed req (pool sf)\<rparr>))
            (Wrapf ierr (ExecuteAtFailed (length pre)))) \<and>
   (writeRequest e req s = Err s' err \<longrightarrow>
      current s' = current s \<and> req \<in> failed (pool s') \<and>
      queries (pool s') = queries (pool s) \<and>
      (\<exists>j ierr tx. j < length (Queries req) \<and> err = Wrapf ierr (ExecuteAtFailed j) \<and>
         unc s = Some tx \<and> last (strg s') = rollbackToCall tx (current s)))"
proof (rule conjI; rule impI)
  assume a: "unc s = Some tx \<and> Queries req = pre @ v # post \<and> runQueries e pre s = Ok sj rs \<and>
      writeSingle e v sj = Err sf ierr"
  then have "writeLoop e req (current s) 0 (Queries req) (0, 0) s =
      Err (rolledBack tx (current s) (sf\<lparr>pool := setFailed req (pool sf)\<rparr>))
          (Wrapf ierr (ExecuteAtFailed (0 + length pre)))"
    using writeLoop_failure [of e pre s sj rs v sf ierr tx req "current s" 0 post "(0, 0)"]
    by simp
  then show "writeRequest e req s =
        Err (rolledBack tx (current s) (sf\<lparr>pool := setFailed req (pool sf)\<rparr>))
            (Wrapf ierr (ExecuteAtFailed (length pre)))"
    by (simp add: writeRequest_def getID_def Let_def)
next
  assume a: "writeRequest e req s = Err s' err"
  have "writeLoop e req (current s) 0 (Queries req) (0, 0) s = Err s' err"
    by (rule writeRequest_Err_loop [OF a])
  from writeLoop_Err [OF this]
  show "current s' = current s \<and> req \<in> failed (pool s') \<and>
      queries (pool s') = queries (pool s) \<and>
      (\<exists>j ierr tx. j < length (Queries req) \<and> err = Wrapf ierr (ExecuteAtFailed j) \<and>
         unc s = Some tx \<and> last (strg s') = rollbackToCall tx (current s))"
    by simp
qed

text \<open>
  Claim C5. When a write request succeeds, every query has executed, and the response
  has: as \<open>LogOffset\<close> the value of \<open>current\<close> before the first query; as affected rows
  the sum (in 64-bit arithmetic) of the affected rows of all queries; as last insert id
  the one of the final query (zero for a request without queries); row count 0. The
  tracker is enqueued in the pool under that \<open>LogOffset\<close>, and the last call on the
  backend is a savepoint named by the advanced counter.
\<close>

theorem write_success_response:
  assumes "writeRequest e req s = Ok s' (ref, resp)"
  shows "\<exists>s1 rs tx.
      runQueries e (Queries req) s = Ok s1 rs \<and> unc s = Some tx \<and>
      LogOffset (Header resp) = current s \<and>
      AffectedRows (Header resp) = sum_list (map rowsAffected rs) \<and>
      LastInsertID (Header resp) = (if rs = [] then 0 else lastInsertId (last rs)) \<and>
      RowCount (Header resp) = 0 \<and>
      ref = \<lparr>Req = req, Resp = None\<rparr> \<and>
      pool s' = enqueue (LogOffset (Header resp)) ref (pool s) \<and>
      trackerAt (LogOffset (Header resp)) (pool s') = Some ref \<and>
      current s' = current s + of_nat (length (Queries req)) \<and>
      strg s' = strg s1 @ [savepointCall tx (current s')]"
proof -
  from assms obtain s1 tot lastid where
    l: "writeLoop e req (current s) 0 (Queries req) (0, 0) s = Ok s1 (tot, lastid)"
    by (auto simp: writeRequest_def getID_def Let_def split: outcome.splits)
  from writeLoop_Ok [OF l] obtain rs where r: "runQueries e (Queries req) s = Ok s1 rs"
    by blast
  from writeLoop_success [OF r, of req "current s" 0 0 0] l
  have acc: "tot = sum_list (map rowsAffected rs)"
    "lastid = (if rs = [] then 0 else lastInsertId (last rs))"
    by simp_all
  note rq = runQueries_Ok [OF r]
  from assms l obtain tx where tx: "unc s1 = Some tx"
    by (cases "unc s1") (auto simp: writeRequest_def getID_def Let_def setSavepoint_def uncExec_def)
  from assms l setSavepoint_Some [OF tx]
  have s': "s' = s1\<lparr>strg := strg s1 @ [savepointCall tx (current s1)],
                    pool := enqueue (current s) \<lparr>Req = req, Resp = None\<rparr> (pool s1)\<rparr>"
    and ref: "ref = \<lparr>Req = req, Resp = None\<rparr>"
    and resp: "resp = \<lparr>Header = \<lparr>RequestEcho = ReqHeader req, NodeID = nodeID s1,
                               Timestamp = getLocalTime e, RowCount = 0, LogOffset = current s,
                               AffectedRows = tot, LastInsertID = lastid\<rparr>,
                    Payload = emptyPayload\<rparr>"
    by (auto simp: writeRequest_def getID_def Let_def)
  have "runQueries e (Queries req) s = Ok s1 rs \<and> unc s = Some tx \<and>
      LogOffset (Header resp) = current s \<and>
      AffectedRows (Header resp) = sum_list (map rowsAffected rs) \<and>
      LastInsertID (Header resp) = (if rs = [] then 0 else lastInsertId (last rs)) \<and>
      RowCount (Header resp) = 0 \<and>
      ref = \<lparr>Req = req, Resp = None\<rparr> \<and>
      pool s' = enqueue (LogOffset (Header resp)) ref (pool s) \<and>
      trackerAt (LogOffset (Header resp)) (pool s') = Some ref \<and>
      current s' = current s + of_nat (length (Queries req)) \<and>
      strg s' = strg s1 @ [savepointCall tx (current s')]"
    using r tx rq s' ref resp acc by (simp add: trackerAt_enqueue)
  then show ?thesis by blast
qed

lemmas demo_defs = demoEnv_def demoState_def demoRequest_def demoQuery_def demoHeader_def
  demoResponse_def demoResponseHeader_def newPool_def savepointCall_def rollbackToCall_def
  demoPooled_def demoTx_def

lemmas step_defs = writeSingle_def incSeq_def getID_def Let_def setSavepoint_def uncExec_def
  rollbackTo_def rollbackID_def

lemma demoPooled_reached:
  "\<exists>r. writeRequest demoEnv (demoRequest WriteQuery [''INSERT'']) demoState = Ok demoPooled r"
  by (simp add: writeRequest_def demo_defs step_defs enqueue_def)

theorem write_failure_rolls_back_witness:
  "unc demoState = Some 0 \<and>
   (\<exists>s'. writeRequest demoEnv (demoRequest WriteQuery [''INSERT'', ''FAIL'']) demoState =
            Err s' (Wrapf (ExternalError ''exec'') (ExecuteAtFailed 1)) \<and>
          current s' = 100 \<and>
          demoRequest WriteQuery [''INSERT'', ''FAIL''] \<in> failed (pool s') \<and>
          queries (pool s') = [])"
proof -
  let ?req = "demoRequest WriteQuery [''INSERT'', ''FAIL'']"
  have u: "unc demoState = Some 0" by (simp add: demoState_def)
  have q: "Queries ?req = [demoQuery ''INSERT''] @ demoQuery ''FAIL'' # []"
    by (simp add: demoRequest_def)
  have "\<exists>sj rs sf. runQueries demoEnv [demoQuery ''INSERT''] demoState = Ok sj rs \<and>
      writeSingle demoEnv (demoQuery ''FAIL'') sj = Err sf (ExternalError ''exec'')"
    by (simp add: demo_defs step_defs)
  then obtain sj rs sf where
    r: "runQueries demoEnv [demoQuery ''INSERT''] demoState = Ok sj rs" and
    w: "writeSingle demoEnv (demoQuery ''FAIL'') sj = Err sf (ExternalError ''exec'')"
    by blast
  let ?s' = "rolledBack 0 (current demoState) (sf\<lparr>pool := setFailed ?req (pool sf)\<rparr>)"
  from write_failure_rolls_back [of demoState 0 ?req "[demoQuery ''INSERT'']"
      "demoQuery ''FAIL''" "[]" demoEnv sj rs sf "ExternalError ''exec''" ?s'
      "Wrapf (ExternalError ''exec'') (ExecuteAtFailed 1)"] u q r w
  have res: "writeRequest demoEnv ?req demoState =
      Err ?s' (Wrapf (ExternalError ''exec'') (ExecuteAtFailed 1))"
    and post: "current ?s' = current demoState \<and> ?req \<in> failed (pool ?s') \<and>
      queries (pool ?s') = queries (pool demoState)"
    by simp_all
  have "current demoState = 100" "queries (pool demoState) = []"
    by (simp_all add: demoState_def newPool_def)
  with res post u show ?thesis by auto
qed

theorem write_success_response_witness:
  "\<exists>s' ref resp. writeRequest demoEnv (demoRequest WriteQuery [''INSERT'', ''CREATE'']) demoState =
       Ok s' (ref, resp) \<and>
     LogOffset (Header resp) = 100 \<and> AffectedRows (Header resp) = 2 \<and>
     LastInsertID (Header resp) = 4 \<and> RowCount (Header resp) = 0 \<and>
     trackerAt 100 (pool s') = Some ref \<and> current s' = 102 \<and>
     last (strg s') = savepointCall 0 102"
proof -
  let ?req = "demoRequest WriteQuery [''INSERT'', ''CREATE'']"
  have "\<exists>s' ref resp. writeRequest demoEnv ?req demoState = Ok s' (ref, resp)"
    by (simp add: writeRequest_def demo_defs step_defs)
  then obtain s' ref resp where w: "writeRequest demoEnv ?req demoState = Ok s' (ref, resp)"
    by blast
  have r: "runQueries demoEnv (Queries ?req) demoState =
      Ok (demoState\<lparr>strg := strg demoState @ [TxExec 0 ''INSERT'' [], TxExec 0 ''CREATE'' []],
                     current := 102, hasSchemaChange := 1\<rparr>)
         [\<lparr>rowsAffected = 1, lastInsertId = 3\<rparr>, \<lparr>rowsAffected = 1, lastInsertId = 4\<rparr>]"
    by (simp add: demo_defs step_defs)
  have c: "current demoState = 100" "unc demoState = Some 0" "length (Queries ?req) = 2"
    by (simp_all add: demo_defs)
  from write_success_response [OF w] r c
  have "LogOffset (Header resp) = 100 \<and> AffectedRows (Header resp) = 2 \<and>
     LastInsertID (Header resp) = 4 \<and> RowCount (Header resp) = 0 \<and>
     trackerAt 100 (pool s') = Some ref \<and> current s' = 102 \<and>
     last (strg s') = savepointCall 0 102"
    by auto
  with w show ?thesis by blast
qed

subsection \<open>Counter round trip\<close>

text \<open>
  Claim C6. After any sequence of successful writes followed by \<open>rollbackTo(k)\<close>, the
  counter reads \<open>k\<close>, and the next write request gets \<open>LogOffset\<close> \<open>k\<close>: its response
  carries \<open>k\<close> and its tracker is pooled under \<open>k\<close> when it succeeds, and the counter is
  back at \<open>k\<close> when it fails.
\<close>

theorem rollbackTo_then_write_offset:
  assumes "writeAll e reqs s0 = Ok s1 resps" and "rollbackTo k s1 = Ok s2 u"
  shows "getID s2 = k \<and>
         (\<forall>req s3 ref resp. writeRequest e req s2 = Ok s3 (ref, resp) \<longrightarrow>
            LogOffset (Header resp) = k \<and> trackerAt k (pool s3) = Some ref) \<and>
         (\<forall>req s3 err. writeRequest e req s2 = Err s3 err \<longrightarrow> getID s3 = k)"
proof -
  from assms(2) have k: "current s2 = k"
    by (auto simp: rollbackTo_def uncExec_def rollbackID_def split: option.splits)
  have ok: "LogOffset (Header resp) = k \<and> trackerAt k (pool s3) = Some ref"
    if "writeRequest e req s2 = Ok s3 (ref, resp)" for req s3 ref resp
    using writeRequest_Ok_offset [OF that] k by simp
  have er: "getID s3 = k" if "writeRequest e req s2 = Err s3 err" for req s3 err
    using writeLoop_Err [OF writeRequest_Err_loop [OF that]] k
    by (simp add: getID_def)
  from k ok er show ?thesis by (simp add: getID_def)
qed

theorem rollbackTo_then_write_offset_witness:
  "\<exists>s1 resps s2 s3 ref resp.
     writeAll demoEnv [demoRequest WriteQuery [''INSERT'', ''INSERT''],
                       demoRequest WriteQuery [''INSERT'']] demoState = Ok s1 resps \<and>
     getID s1 = 103 \<and>
     rollbackTo 102 s1 = Ok s2 () \<and> getID s2 = 102 \<and>
     writeRequest demoEnv (demoRequest WriteQuery [''CREATE'']) s2 = Ok s3 (ref, resp) \<and>
     LogOffset (Header resp) = 102 \<and> trackerAt 102 (pool s3) = Some ref"
proof -
  let ?reqs = "[demoRequest WriteQuery [''INSERT'', ''INSERT''], demoRequest WriteQuery [''INSERT'']]"
  have "\<exists>s1 resps. writeAll demoEnv ?reqs demoState = Ok s1 resps \<and> getID s1 = 103 \<and>
      unc s1 = Some 0"
    by (simp add: writeRequest_def demo_defs step_defs)
  then obtain s1 resps where a: "writeAll demoEnv ?reqs demoState = Ok s1 resps"
    and g: "getID s1 = 103" and u: "unc s1 = Some 0"
    by blast
  let ?s2 = "rolledBack 0 102 s1"
  have b: "rollbackTo 102 s1 = Ok ?s2 ()" by (rule rollbackTo_Some [OF u])
  have u2: "unc ?s2 = Some 0" "current ?s2 = 102" using u by (simp_all add: rolledBack_def)
  have "\<exists>s3 ref resp. writeRequest demoEnv (demoRequest WriteQuery [''CREATE'']) ?s2 = Ok s3 (ref, resp)"
    using u2 by (simp add: writeRequest_def demo_defs step_defs)
  then obtain s3 ref resp where
    w: "writeRequest demoEnv (demoRequest WriteQuery [''CREATE'']) ?s2 = Ok s3 (ref, resp)"
    by blast
  from rollbackTo_then_write_offset [OF a b] w
  have "getID ?s2 = 102 \<and> LogOffset (Header resp) = 102 \<and> trackerAt 102 (pool s3) = Some ref"
    by blast
  with a g b w show ?thesis by blast
qed

subsection \<open>Replay path\<close>

lemma replayLoop_failure:
  assumes "runQueries e pre s = Ok sj rs" and "writeSingle e v sj = Err sf ierr"
    and "unc s = Some tx"
  shows "replayLoop e sp i (pre @ v # post) s =
           Err (rolledBack tx sp sf) (Wrapf ierr (ExecuteAtFailed (i + length pre)))"
  using assms
proof (induction pre arbitrary: s rs i)
  case Nil
  have "unc sf = Some tx" using writeSingle_Err(1) [OF Nil(2)] Nil by simp
  from rollbackTo_Some [OF this, of sp] Nil show ?case by simp
next
  case (Cons u us)
  from Cons.prems(1) obtain s2 res rs' where
    w: "writeSingle e u s = Ok s2 res" and r: "runQueries e us s2 = Ok sj rs'"
    by (auto split: outcome.splits)
  have u2: "unc s2 = Some tx" using writeSingle_Ok(1) [OF w] Cons.prems(3) by simp
  show ?case
    using Cons.IH [OF r Cons.prems(2) u2, of "Suc i"] w by simp
qed

text \<open>
  Claim C1, as the code has it. In a single-request replay of a write request, whenever
  the counter differs from \<open>resp.LogOffset\<close>, be it less or greater, the call returns
  \<open>ErrQueryConflict\<close>, wrapped with the two ids; the state, and with it the pool and the
  counter, is left as it was.
\<close>

theorem replay_offset_mismatch:
  assumes "QueryType (ReqHeader req) = WriteQuery"
    and "current s \<noteq> LogOffset (Header resp)"
  shows "ReplayWithContext e req resp s =
           Err s (Wrapf ErrQueryConflict
                    (LocalVsReplaying (current s) (LogOffset (Header resp)))) \<and>
         Cause (Wrapf ErrQueryConflict
                    (LocalVsReplaying (current s) (LogOffset (Header resp)))) = ErrQueryConflict"
  using assms by (auto simp: ReplayWithContext_def replay_def getID_def Let_def)

theorem replay_offset_mismatch_witness:
  "QueryType (ReqHeader (demoRequest WriteQuery [''INSERT''])) = WriteQuery \<and>
   current demoState \<noteq> LogOffset (Header (demoResponse (demoRequest WriteQuery [''INSERT'']) 99)) \<and>
   ReplayWithContext demoEnv (demoRequest WriteQuery [''INSERT''])
       (demoResponse (demoRequest WriteQuery [''INSERT'']) 99) demoState =
     Err demoState (Wrapf ErrQueryConflict (LocalVsReplaying 100 99))"
proof -
  let ?req = "demoRequest WriteQuery [''INSERT'']"
  have a: "QueryType (ReqHeader ?req) = WriteQuery" by (simp add: demo_defs)
  have b: "current demoState \<noteq> LogOffset (Header (demoResponse ?req 99))"
    by (simp add: demo_defs)
  have c: "current demoState = 100" "LogOffset (Header (demoResponse ?req 99)) = 99"
    by (simp_all add: demo_defs)
  from replay_offset_mismatch [OF a b, of demoEnv] a b c show ?thesis by simp
qed

text \<open>The claim as the specification words it fails: with the counter at 100, replaying
  a response with \<open>LogOffset\<close> 105 returns \<open>ErrQueryConflict\<close>, not \<open>ErrMissingParent\<close>.\<close>

theorem replay_ahead_counterexample:
  "current demoState < LogOffset (Header (demoResponse (demoRequest WriteQuery [''INSERT'']) 105)) \<and>
   ReplayWithContext demoEnv (demoRequest WriteQuery [''INSERT''])
       (demoResponse (demoRequest WriteQuery [''INSERT'']) 105) demoState =
     Err demoState (Wrapf ErrQueryConflict (LocalVsReplaying 100 105)) \<and>
   Cause (Wrapf ErrQueryConflict (LocalVsReplaying 100 105)) \<noteq> ErrMissingParent"
  by (simp add: ReplayWithContext_def replay_def demo_defs step_defs)

text \<open>
  Claim C8, as the code has it. In a single-request replay of a write request whose
  \<open>resp.LogOffset\<close> equals the counter, when a query fails (the queries before it having
  executed) the state rolls back to the savepoint taken at entry and the query's error
  is returned wrapped with the index of the failing query; no tracker is enqueued, and
  the request is not recorded in the failed set: the pool is left as it was.
\<close>

theorem replay_failure_rolls_back:
  assumes "QueryType (ReqHeader req) = WriteQuery"
    and "LogOffset (Header resp) = current s"
    and "unc s = Some tx"
    and "Queries req = pre @ v # post"
    and "runQueries e pre s = Ok sj rs"
    and "writeSingle e v sj = Err sf ierr"
  shows "ReplayWithContext e req resp s =
           Err (rolledBack tx (current s) sf) (Wrapf ierr (ExecuteAtFailed (length pre))) \<and>
         current (rolledBack tx (current s) sf) = current s \<and>
         last (strg (rolledBack tx (current s) sf)) = rollbackToCall tx (current s) \<and>
         pool (rolledBack tx (current s) sf) = pool s"
proof -
  have "replayLoop e (current s) 0 (Queries req) s =
      Err (rolledBack tx (current s) sf) (Wrapf ierr (ExecuteAtFailed (0 + length pre)))"
    unfolding assms(4) by (rule replayLoop_failure [OF assms(5,6,3)])
  then have "ReplayWithContext e req resp s =
           Err (rolledBack tx (current s) sf) (Wrapf ierr (ExecuteAtFailed (length pre)))"
    using assms(1,2) by (simp add: ReplayWithContext_def replay_def getID_def Let_def)
  moreover have "pool sf = pool s"
    using writeSingle_Err(2) [OF assms(6)] runQueries_Ok [OF assms(5)] by simp
  ultimately show ?thesis by (simp add: rolledBack_def)
qed

theorem replay_failure_rolls_back_witness:
  "\<exists>s'. ReplayWithContext demoEnv (demoRequest WriteQuery [''INSERT'', ''FAIL''])
       (demoResponse (demoRequest WriteQuery [''INSERT'', ''FAIL'']) 100) demoState =
         Err s' (Wrapf (ExternalError ''exec'') (ExecuteAtFailed 1)) \<and>
       current s' = 100 \<and> pool s' = newPool"
proof -
  let ?req = "demoRequest WriteQuery [''INSERT'', ''FAIL'']"
  have a: "QueryType (ReqHeader ?req) = WriteQuery"
    "LogOffset (Header (demoResponse ?req 100)) = current demoState"
    "unc demoState = Some 0"
    "Queries ?req = [demoQuery ''INSERT''] @ demoQuery ''FAIL'' # []"
    by (simp_all add: demo_defs)
  have "\<exists>sj rs sf. runQueries demoEnv [demoQuery ''INSERT''] demoState = Ok sj rs \<and>
      writeSingle demoEnv (demoQuery ''FAIL'') sj = Err sf (ExternalError ''exec'')"
    by (simp add: demo_defs step_defs)
  then obtain sj rs sf where
    r: "runQueries demoEnv [demoQuery ''INSERT''] demoState = Ok sj rs" and
    w: "writeSingle demoEnv (demoQuery ''FAIL'') sj = Err sf (ExternalError ''exec'')"
    by blast
  have c: "current demoState = 100" "pool demoState = newPool" by (simp_all add: demoState_def)
  from replay_failure_rolls_back [OF a r w] c show ?thesis by auto
qed

text \<open>The claim as the specification words it fails: after a failing replay the failed
  set of the pool does not hold the request.\<close>

theorem replay_failure_counterexample:
  "ReplayWithContext demoEnv (demoRequest WriteQuery [''INSERT'', ''FAIL''])
       (demoResponse (demoRequest WriteQuery [''INSERT'', ''FAIL'']) 100) demoState =
     Err (demoState\<lparr>strg := strg demoState @
            [TxExec 0 ''INSERT'' [], TxExec 0 ''FAIL'' [], rollbackToCall 0 100]\<rparr>)
         (Wrapf (ExternalError ''exec'') (ExecuteAtFailed 1)) \<and>
   demoRequest WriteQuery [''INSERT'', ''FAIL''] \<notin>
     failed (pool (demoState\<lparr>strg := strg demoState @
            [TxExec 0 ''INSERT'' [], TxExec 0 ''FAIL'' [], rollbackToCall 0 100]\<rparr>))"
  by (simp add: ReplayWithContext_def replay_def demo_defs step_defs)

subsection \<open>Block committer: the reconciliation loop\<close>

lemma replayBlockQueries_read:
  "QueryType (ReqHeader req) = ReadQuery \<Longrightarrow> replayBlockQueries e i l req j qs s = Ok s ()"
  by (induction qs arbitrary: j) simp_all

lemma replayBlockQueries_success:
  "QueryType (ReqHeader req) = WriteQuery \<Longrightarrow> runQueries e qs s = Ok s1 rs \<Longrightarrow>
   replayBlockQueries e i l req j qs s = Ok s1 ()"
proof (induction qs arbitrary: s rs j)
  case Nil
  then show ?case by simp
next
  case (Cons v vs)
  from Cons.prems(2) obtain s2 res rs' where
    w: "writeSingle e v s = Ok s2 res" and r: "runQueries e vs s2 = Ok s1 rs'"
    by (auto split: outcome.splits)
  from Cons.IH [OF Cons.prems(1) r, of "Suc j"] w Cons.prems(1) show ?case by simp
qed

lemma replayBlockQueries_failure:
  assumes "QueryType (ReqHeader req) = WriteQuery"
    and "runQueries e pre s = Ok sj rs" and "writeSingle e v sj = Err sf ierr"
    and "unc s = Some tx"
  shows "replayBlockQueries e i l req j (pre @ v # post) s =
           Err (rolledBack tx l sf) (Wrapf ierr (ExecuteAtBlockFailed i (j + length pre)))"
  using assms(2-4)
proof (induction pre arbitrary: s rs j)
  case Nil
  have "unc sf = Some tx" using writeSingle_Err(1) [OF Nil(2)] Nil by simp
  from rollbackTo_Some [OF this, of l] Nil assms(1) show ?case by simp
next
  case (Cons u us)
  from Cons.prems(1) obtain s2 res rs' where
    w: "writeSingle e u s = Ok s2 res" and r: "runQueries e us s2 = Ok sj rs'"
    by (auto split: outcome.splits)
  have u2: "unc s2 = Some tx" using writeSingle_Ok(1) [OF w] Cons.prems(3) by simp
  show ?case
    using Cons.IH [OF r Cons.prems(2) u2, of "Suc j"] w assms(1) by simp
qed

lemma sameTx_refl: "sameTx s s"
  by (simp add: sameTx_def)

lemma sameTx_trans: "sameTx s s1 \<Longrightarrow> sameTx s1 s2 \<Longrightarrow> sameTx s s2"
  by (simp add: sameTx_def)

lemma sameTx_writeSingle:
  "writeSingle e q s = Ok s1 res \<Longrightarrow> sameTx s s1"
  "writeSingle e q s = Err s1 err \<Longrightarrow> sameTx s s1"
  using writeSingle_Ok [of e q s s1 res] writeSingle_Err [of e q s s1 err]
  by (simp_all add: sameTx_def)

lemma sameTx_rollbackTo: "rollbackTo l s = Ok s1 u \<Longrightarrow> sameTx s s1"
  by (auto simp: rollbackTo_def uncExec_def rollbackID_def sameTx_def isCommit_def
        split: option.splits)

lemma sameTx_setSavepoint: "setSavepoint s = Ok s1 sp \<Longrightarrow> sameTx s s1"
  by (auto simp: setSavepoint_def uncExec_def Let_def sameTx_def isCommit_def
        split: option.splits)

lemma rollbackTo_not_Err: "rollbackTo l s \<noteq> Err s1 err"
  by (simp add: rollbackTo_def uncExec_def split: option.splits)

lemma setSavepoint_not_Err: "setSavepoint s \<noteq> Err s1 err"
  by (simp add: setSavepoint_def uncExec_def Let_def split: option.splits)

lemma sameTx_replayBlockQueries:
  "stateAfter (replayBlockQueries e i l req j qs s) = Some s' \<Longrightarrow> sameTx s s'"
proof (induction qs arbitrary: s j)
  case Nil
  then show ?case by (simp add: stateAfter_def sameTx_refl)
next
  case (Cons v vs)
  show ?case
  proof (cases "QueryType (ReqHeader req) = ReadQuery")
    case True
    with Cons show ?thesis by simp
  next
    case nr: False
    show ?thesis
    proof (cases "QueryType (ReqHeader req) = WriteQuery")
      case False
      with nr Cons.prems show ?thesis
        by (auto simp: stateAfter_def rollbackTo_not_Err split: outcome.splits
              dest: sameTx_rollbackTo)
    next
      case True
      show ?thesis
      proof (cases "writeSingle e v s")
        case Panic
        with True Cons.prems show ?thesis by (simp add: stateAfter_def)
      next
        case (Err s1 ierr)
        with True Cons.prems show ?thesis
          by (auto simp: stateAfter_def rollbackTo_not_Err split: outcome.splits
                dest: sameTx_rollbackTo sameTx_writeSingle(2) intro: sameTx_trans)
      next
        case (Ok s1 res)
        with True Cons.prems have
          "stateAfter (replayBlockQueries e i l req (Suc j) vs s1) = Some s'" by simp
        from Cons.IH [OF this] sameTx_writeSingle(1) [OF Ok] show ?thesis
          by (rule sameTx_trans [rotated])
      qed
    qed
  qed
qed

lemma sameTx_replayBlockLoop:
  "stateAfter (replayBlockLoop e i qs l s) = Some s' \<Longrightarrow> sameTx s s'"
proof (induction qs arbitrary: s i l)
  case Nil
  then show ?case by (simp add: stateAfter_def sameTx_refl)
next
  case (Cons q qs)
  let ?O = "LogOffset (TxResponse q)"
  consider (gt) "?O > current s" | (lt) "?O < current s" | (eq) "?O = current s"
    by (metis linorder_neqE)
  then show ?case
  proof cases
    case gt
    with Cons.prems show ?thesis by (simp add: getID_def Let_def stateAfter_def sameTx_refl)
  next
    case lt
    then have "\<not> ?O > current s" by simp
    with lt Cons.prems Cons.IH [of "Suc i" "current s" s] show ?thesis
      by (auto simp: getID_def Let_def stateAfter_def sameTx_refl split: if_splits)
  next
    case eq
    show ?thesis
    proof (cases "replayBlockQueries e i (current s) (TxRequest q) 0 (Queries (TxRequest q)) s")
      case Panic
      with eq Cons.prems show ?thesis by (simp add: getID_def Let_def stateAfter_def)
    next
      case (Err s1 err)
      then have "stateAfter (replayBlockQueries e i (current s) (TxRequest q) 0
          (Queries (TxRequest q)) s) = Some s1" by (simp add: stateAfter_def)
      from sameTx_replayBlockQueries [OF this] eq Err Cons.prems show ?thesis
        by (simp add: getID_def Let_def stateAfter_def)
    next
      case (Ok s1 u)
      then have "stateAfter (replayBlockQueries e i (current s) (TxRequest q) 0
          (Queries (TxRequest q)) s) = Some s1" by (simp add: stateAfter_def)
      note a = sameTx_replayBlockQueries [OF this]
      show ?thesis
      proof (cases "setSavepoint s1")
        case Panic
        with eq Ok Cons.prems show ?thesis by (simp add: getID_def Let_def stateAfter_def)
      next
        case (Err s2 err)
        then show ?thesis by (simp add: setSavepoint_not_Err)
      next
        case sp: (Ok s2 x)
        let ?s3 = "s2\<lparr>pool := enqueue (current s)
              \<lparr>Req = TxRequest q, Resp = Some \<lparr>Header = TxResponse q, Payload = emptyPayload\<rparr>\<rparr>
              (pool s2)\<rparr>"
        from eq Ok sp Cons.prems have
          "stateAfter (replayBlockLoop e (Suc i) qs (current s) ?s3) = Some s'"
          by (simp add: getID_def Let_def)
        from Cons.IH [OF this] have c: "sameTx ?s3 s'" .
        have b: "sameTx s1 ?s3" using sameTx_setSavepoint [OF sp] by (simp add: sameTx_def)
        from a b c show ?thesis by (blast intro: sameTx_trans)
      qed
    qed
  qed
qed

lemma replayBlockLoop_append:
  "replayBlockLoop e i pre l s = Ok sm lm \<Longrightarrow>
   replayBlockLoop e i (pre @ rest) l s = replayBlockLoop e (i + length pre) rest lm sm"
proof (induction pre arbitrary: s i l)
  case Nil
  then show ?case by simp
next
  case (Cons q qs)
  show ?case
    using Cons.prems Cons.IH
    by (auto simp: Let_def split: if_splits outcome.splits)
qed

lemma replayBlockLoop_at:
  assumes "QueryTxs block = pre @ q # rest" and "replayBlockLoop e 0 pre 0 s0 = Ok s lp"
  shows "replayBlockLoop e 0 (QueryTxs block) 0 s0 = replayBlockLoop e (length pre) (q # rest) lp s"
    and "replayBlockLoop e 0 (pre @ [q]) 0 s0 = replayBlockLoop e (length pre) [q] lp s"
    and "sameTx s0 s"
  using replayBlockLoop_append [OF assms(2), of "q # rest"]
    replayBlockLoop_append [OF assms(2), of "[q]"] assms
    sameTx_replayBlockLoop [of e 0 pre 0 s0 s]
  by (simp_all add: stateAfter_def)

lemma ReplayBlockWithContext_Err:
  "replayBlockLoop e 0 (QueryTxs block) 0 s0 = Err s' err \<Longrightarrow>
   ReplayBlockWithContext e block s0 = Err s' err"
  by (simp add: ReplayBlockWithContext_def)

text \<open>
  Claim C2. In \<open>ReplayBlock\<close>, take any entry of the block, the entries before it having
  been reconciled, with \<open>O\<close> its response offset and \<open>S\<close> the counter at that iteration.
  If \<open>O > S\<close> the call returns \<open>ErrMissingParent\<close>. If \<open>O < S\<close> the entry is skipped (the
  state stays as it is) when the pool holds a tracker at \<open>O\<close> whose request matches, and
  otherwise the call returns \<open>ErrQueryConflict\<close>. If \<open>O = S\<close> the queries of the (write)
  entry are executed; when one of them fails the state rolls back to \<open>S\<close> and the whole
  call fails. In each failing case nothing has been committed.
\<close>

theorem replayBlock_entry:
  assumes "QueryTxs block = pre @ q # rest"
    and "replayBlockLoop e 0 pre 0 s0 = Ok s lp"
  shows
    "(LogOffset (TxResponse q) > current s \<longrightarrow>
        ReplayBlockWithContext e block s0 = Err s ErrMissingParent \<and> sameTx s0 s) \<and>
     (LogOffset (TxResponse q) < current s \<and>
        \<not> match (LogOffset (TxResponse q)) (TxRequest q) (pool s) \<longrightarrow>
        ReplayBlockWithContext e block s0 = Err s ErrQueryConflict \<and> sameTx s0 s) \<and>
     (LogOffset (TxResponse q) < current s \<and>
        match (LogOffset (TxResponse q)) (TxRequest q) (pool s) \<longrightarrow>
        replayBlockLoop e 0 (pre @ [q]) 0 s0 = Ok s (current s)) \<and>
     (LogOffset (TxResponse q) = current s \<and> QueryType (ReqHeader (TxRequest q)) = WriteQuery \<and>
        unc s = Some tx \<and> runQueries e (Queries (TxRequest q)) s = Ok s1 rs \<longrightarrow>
        replayBlockLoop e 0 (pre @ [q]) 0 s0 =
          Ok (s1\<lparr>strg := strg s1 @ [savepointCall tx (current s1)],
                  pool := enqueue (current s)
                    \<lparr>Req = TxRequest q,
                     Resp = Some \<lparr>Header = TxResponse q, Payload = emptyPayload\<rparr>\<rparr> (pool s1)\<rparr>)
             (current s)) \<and>
     (LogOffset (TxResponse q) = current s \<and> QueryType (ReqHeader (TxRequest q)) = WriteQuery \<and>
        unc s = Some tx \<and> Queries (TxRequest q) = qpre @ v # qpost \<and>
        runQueries e qpre s = Ok sj rs \<and> writeSingle e v sj = Err sf ierr \<longrightarrow>
        ReplayBlockWithContext e block s0 =
          Err (rolledBack tx (current s) sf)
              (Wrapf ierr (ExecuteAtBlockFailed (length pre) (length qpre))) \<and>
        current (rolledBack tx (current s) sf) = current s \<and>
        last (strg (rolledBack tx (current s) sf)) = rollbackToCall tx (current s) \<and>
        sameTx s0 (rolledBack tx (current s) sf))"
proof -
  note at = replayBlockLoop_at [OF assms]
  let ?O = "LogOffset (TxResponse q)"
  have c1: "ReplayBlockWithContext e block s0 = Err s ErrMissingParent \<and> sameTx s0 s"
    if "?O > current s"
  proof -
    from that have "replayBlockLoop e 0 (QueryTxs block) 0 s0 = Err s ErrMissingParent"
      by (simp add: at(1) getID_def Let_def)
    from ReplayBlockWithContext_Err [OF this] at(3) show ?thesis by simp
  qed
  have c2: "ReplayBlockWithContext e block s0 = Err s ErrQueryConflict \<and> sameTx s0 s"
    if "?O < current s \<and> \<not> match ?O (TxRequest q) (pool s)"
  proof -
    from that have "\<not> ?O > current s" by auto
    with that have "replayBlockLoop e 0 (QueryTxs block) 0 s0 = Err s ErrQueryConflict"
      by (simp add: at(1) getID_def Let_def)
    from ReplayBlockWithContext_Err [OF this] at(3) show ?thesis by simp
  qed
  have c3: "replayBlockLoop e 0 (pre @ [q]) 0 s0 = Ok s (current s)"
    if "?O < current s \<and> match ?O (TxRequest q) (pool s)"
  proof -
    from that have "\<not> ?O > current s" by auto
    with that show ?thesis by (simp add: at(2) getID_def Let_def)
  qed
  have c4: "replayBlockLoop e 0 (pre @ [q]) 0 s0 =
          Ok (s1\<lparr>strg := strg s1 @ [savepointCall tx (current s1)],
                  pool := enqueue (current s)
                    \<lparr>Req = TxRequest q,
                     Resp = Some \<lparr>Header = TxResponse q, Payload = emptyPayload\<rparr>\<rparr> (pool s1)\<rparr>)
             (current s)"
    if h: "?O = current s \<and> QueryType (ReqHeader (TxRequest q)) = WriteQuery \<and>
        unc s = Some tx \<and> runQueries e (Queries (TxRequest q)) s = Ok s1 rs"
  proof -
    from h have r: "runQueries e (Queries (TxRequest q)) s = Ok s1 rs"
      and w: "QueryType (ReqHeader (TxRequest q)) = WriteQuery" by simp_all
    have u1: "unc s1 = Some tx" using runQueries_Ok [OF r] h by simp
    from replayBlockQueries_success [OF w r, of "length pre" "current s" 0]
      setSavepoint_Some [OF u1] h
    show ?thesis by (simp add: at(2) getID_def Let_def)
  qed
  have c5: "ReplayBlockWithContext e block s0 =
          Err (rolledBack tx (current s) sf)
              (Wrapf ierr (ExecuteAtBlockFailed (length pre) (length qpre))) \<and>
        current (rolledBack tx (current s) sf) = current s \<and>
        last (strg (rolledBack tx (current s) sf)) = rollbackToCall tx (current s) \<and>
        sameTx s0 (rolledBack tx (current s) sf)"
    if h: "?O = current s \<and> QueryType (ReqHeader (TxRequest q)) = WriteQuery \<and>
        unc s = Some tx \<and> Queries (TxRequest q) = qpre @ v # qpost \<and>
        runQueries e qpre s = Ok sj rs \<and> writeSingle e v sj = Err sf ierr"
  proof -
    from h have w: "QueryType (ReqHeader (TxRequest q)) = WriteQuery"
      and r: "runQueries e qpre s = Ok sj rs" and f: "writeSingle e v sj = Err sf ierr"
      and u: "unc s = Some tx" and qs: "Queries (TxRequest q) = qpre @ v # qpost"
      by simp_all
    from replayBlockQueries_failure [OF w r f u, of "length pre" "current s" 0 qpost] h
    have l: "replayBlockLoop e 0 (QueryTxs block) 0 s0 =
        Err (rolledBack tx (current s) sf)
            (Wrapf ierr (ExecuteAtBlockFailed (length pre) (length qpre)))"
      by (simp add: at(1) getID_def Let_def)
    then have "stateAfter (replayBlockLoop e 0 (QueryTxs block) 0 s0) =
        Some (rolledBack tx (current s) sf)" by (simp add: stateAfter_def)
    from sameTx_replayBlockLoop [OF this] ReplayBlockWithContext_Err [OF l]
    show ?thesis by (simp add: rolledBack_def)
  qed
  from c1 c2 c3 c4 c5 show ?thesis by blast
qed

theorem replayBlock_entry_witness:
  "ReplayBlockWithContext demoEnv
      \<lparr>QueryTxs = [demoTx (demoRequest WriteQuery [''INSERT'']) 100,
                   demoTx (demoRequest WriteQuery [''CREATE'']) 105], FailedReqs = []\<rparr> demoPooled =
     Err demoPooled ErrMissingParent \<and>
   ReplayBlockWithContext demoEnv
      \<lparr>QueryTxs = [demoTx (demoRequest WriteQuery [''CREATE'']) 100], FailedReqs = []\<rparr> demoPooled =
     Err demoPooled ErrQueryConflict \<and>
   replayBlockLoop demoEnv 0 [demoTx (demoRequest WriteQuery [''INSERT'']) 100] 0 demoPooled =
     Ok demoPooled 101 \<and>
   (\<exists>s'. replayBlockLoop demoEnv 0
        [demoTx (demoRequest WriteQuery [''INSERT'']) 100,
         demoTx (demoRequest WriteQuery [''CREATE'']) 101] 0 demoPooled = Ok s' 101 \<and>
      current s' = 102 \<and> hasSchemaChange s' = 1) \<and>
   (\<exists>s'. ReplayBlockWithContext demoEnv
        \<lparr>QueryTxs = [demoTx (demoRequest WriteQuery [''INSERT'']) 100,
                     demoTx (demoRequest WriteQuery [''INSERT'', ''FAIL'']) 101],
         FailedReqs = []\<rparr> demoPooled =
        Err s' (Wrapf (ExternalError ''exec'') (ExecuteAtBlockFailed 1 1)) \<and>
      current s' = 101 \<and> filter isCommit (strg s') = [])"
proof -
  let ?A = "demoTx (demoRequest WriteQuery [''INSERT'']) 100"
  let ?B = "demoTx (demoRequest WriteQuery [''CREATE'']) 105"
  let ?B' = "demoTx (demoRequest WriteQuery [''CREATE'']) 100"
  let ?C = "demoTx (demoRequest WriteQuery [''CREATE'']) 101"
  let ?F = "demoTx (demoRequest WriteQuery [''INSERT'', ''FAIL'']) 101"
  have nil: "replayBlockLoop demoEnv 0 [] 0 demoPooled = Ok demoPooled 0" by simp
  have cur: "current demoPooled = 101" "unc demoPooled = Some 0"
    "filter isCommit (strg demoPooled) = []"
    by (simp_all add: demo_defs isCommit_def)
  have mA: "match (LogOffset (TxResponse ?A)) (TxRequest ?A) (pool demoPooled)"
    "LogOffset (TxResponse ?A) < current demoPooled"
    by (simp_all add: demo_defs match_def trackerAt_def enqueue_def)
  have mB': "\<not> match (LogOffset (TxResponse ?B')) (TxRequest ?B') (pool demoPooled)"
    "LogOffset (TxResponse ?B') < current demoPooled"
    by (simp_all add: demo_defs match_def trackerAt_def enqueue_def)
  have skip: "replayBlockLoop demoEnv 0 ([] @ [?A]) 0 demoPooled = Ok demoPooled (current demoPooled)"
    using replayBlock_entry [where block = "\<lparr>QueryTxs = [?A], FailedReqs = []\<rparr>" and pre = "[]"
        and q = ?A and rest = "[]" and e = demoEnv and ?s0.0 = demoPooled and s = demoPooled
        and lp = 0] nil mA
    by simp
  then have pre: "replayBlockLoop demoEnv 0 [?A] 0 demoPooled = Ok demoPooled 101"
    using cur by simp
  have w1: "ReplayBlockWithContext demoEnv \<lparr>QueryTxs = [?A, ?B], FailedReqs = []\<rparr> demoPooled =
      Err demoPooled ErrMissingParent"
    using replayBlock_entry [where block = "\<lparr>QueryTxs = [?A, ?B], FailedReqs = []\<rparr>"
        and pre = "[?A]" and q = ?B and rest = "[]" and e = demoEnv and ?s0.0 = demoPooled
        and s = demoPooled and lp = 101] pre cur
    by (simp add: demo_defs)
  have w2: "ReplayBlockWithContext demoEnv \<lparr>QueryTxs = [?B'], FailedReqs = []\<rparr> demoPooled =
      Err demoPooled ErrQueryConflict"
    using replayBlock_entry [where block = "\<lparr>QueryTxs = [?B'], FailedReqs = []\<rparr>" and pre = "[]"
        and q = ?B' and rest = "[]" and e = demoEnv and ?s0.0 = demoPooled and s = demoPooled
        and lp = 0] nil mB'
    by simp
  have "\<exists>s1 rs. runQueries demoEnv (Queries (TxRequest ?C)) demoPooled = Ok s1 rs \<and>
      current s1 = 102 \<and> hasSchemaChange s1 = 1"
    by (simp add: demo_defs step_defs)
  then obtain s1 rs where r: "runQueries demoEnv (Queries (TxRequest ?C)) demoPooled = Ok s1 rs"
    and s1: "current s1 = 102" "hasSchemaChange s1 = 1"
    by blast
  have tC: "LogOffset (TxResponse ?C) = current demoPooled"
    "QueryType (ReqHeader (TxRequest ?C)) = WriteQuery"
    by (simp_all add: demo_defs)
  have w4: "\<exists>s'. replayBlockLoop demoEnv 0 [?A, ?C] 0 demoPooled = Ok s' 101 \<and>
      current s' = 102 \<and> hasSchemaChange s' = 1"
    using replayBlock_entry [where block = "\<lparr>QueryTxs = [?A, ?C], FailedReqs = []\<rparr>"
        and pre = "[?A]" and q = ?C and rest = "[]" and e = demoEnv and ?s0.0 = demoPooled
        and s = demoPooled and lp = 101 and tx = 0 and ?s1.0 = s1 and rs = rs] pre cur tC r s1
    by simp
  have "\<exists>sj rs sf. runQueries demoEnv [demoQuery ''INSERT''] demoPooled = Ok sj rs \<and>
      writeSingle demoEnv (demoQuery ''FAIL'') sj = Err sf (ExternalError ''exec'')"
    by (simp add: demo_defs step_defs)
  then obtain sj rs' sf where
    rj: "runQueries demoEnv [demoQuery ''INSERT''] demoPooled = Ok sj rs'" and
    wf: "writeSingle demoEnv (demoQuery ''FAIL'') sj = Err sf (ExternalError ''exec'')"
    by blast
  have tF: "LogOffset (TxResponse ?F) = current demoPooled"
    "QueryType (ReqHeader (TxRequest ?F)) = WriteQuery"
    "Queries (TxRequest ?F) = [demoQuery ''INSERT''] @ demoQuery ''FAIL'' # []"
    by (simp_all add: demo_defs)
  have w5: "\<exists>s'. ReplayBlockWithContext demoEnv \<lparr>QueryTxs = [?A, ?F], FailedReqs = []\<rparr> demoPooled =
        Err s' (Wrapf (ExternalError ''exec'') (ExecuteAtBlockFailed 1 1)) \<and>
      current s' = 101 \<and> filter isCommit (strg s') = []"
    using replayBlock_entry [where block = "\<lparr>QueryTxs = [?A, ?F], FailedReqs = []\<rparr>"
        and pre = "[?A]" and q = ?F and rest = "[]" and e = demoEnv and ?s0.0 = demoPooled
        and s = demoPooled and lp = 101 and tx = 0 and qpre = "[demoQuery ''INSERT'']"
        and v = "demoQuery ''FAIL''" and qpost = "[]" and sj = sj and rs = rs' and sf = sf
        and ierr = "ExternalError ''exec''"] pre cur tF rj wf
    by (simp add: sameTx_def)
  from w1 w2 pre w4 w5 show ?thesis by blast
qed

text \<open>
  Claim C10. In \<open>ReplayBlock\<close>, an entry whose request has query type \<open>Read\<close> and whose
  offset equals the counter executes none of its queries and does not advance the
  counter; the only call on the backend is the savepoint, and a tracker for the entry
  is enqueued in the pool at the unchanged offset.
\<close>

theorem replayBlock_read_entry:
  assumes "QueryTxs block = pre @ q # rest"
    and "replayBlockLoop e 0 pre 0 s0 = Ok s lp"
    and "QueryType (ReqHeader (TxRequest q)) = ReadQuery"
    and "LogOffset (TxResponse q) = current s"
    and "unc s = Some tx"
  shows "\<exists>s'. replayBlockLoop e 0 (pre @ [q]) 0 s0 = Ok s' (current s) \<and>
           strg s' = strg s @ [savepointCall tx (current s)] \<and>
           current s' = current s \<and>
           pool s' = enqueue (current s)
              \<lparr>Req = TxRequest q,
               Resp = Some \<lparr>Header = TxResponse q, Payload = emptyPayload\<rparr>\<rparr> (pool s) \<and>
           trackerAt (current s) (pool s') =
              Some \<lparr>Req = TxRequest q,
                    Resp = Some \<lparr>Header = TxResponse q, Payload = emptyPayload\<rparr>\<rparr>"
proof -
  note at = replayBlockLoop_at [OF assms(1,2)]
  from replayBlockQueries_read [OF assms(3), of e "length pre" "current s" 0
      "Queries (TxRequest q)" s] setSavepoint_Some [OF assms(5)] assms(4)
  have "replayBlockLoop e 0 (pre @ [q]) 0 s0 =
      Ok (s\<lparr>strg := strg s @ [savepointCall tx (current s)],
             pool := enqueue (current s)
               \<lparr>Req = TxRequest q,
                Resp = Some \<lparr>Header = TxResponse q, Payload = emptyPayload\<rparr>\<rparr> (pool s)\<rparr>)
         (current s)"
    by (simp add: at(2) getID_def Let_def)
  then show ?thesis by (simp add: trackerAt_enqueue)
qed

theorem replayBlock_read_entry_witness:
  "\<exists>s'. replayBlockLoop demoEnv 0 [demoTx (demoRequest ReadQuery [''SELECT'']) 100] 0 demoState =
          Ok s' 100 \<and>
        strg s' = strg demoState @ [savepointCall 0 100] \<and> current s' = 100 \<and>
        match 100 (demoRequest ReadQuery [''SELECT'']) (pool s')"
proof -
  let ?R = "demoTx (demoRequest ReadQuery [''SELECT'']) 100"
  have nil: "replayBlockLoop demoEnv 0 [] 0 demoState = Ok demoState 0" by simp
  have a: "QueryType (ReqHeader (TxRequest ?R)) = ReadQuery"
    "LogOffset (TxResponse ?R) = current demoState" "unc demoState = Some 0"
    "current demoState = 100" "TxRequest ?R = demoRequest ReadQuery [''SELECT'']"
    by (simp_all add: demo_defs)
  from replayBlock_read_entry [where block = "\<lparr>QueryTxs = [?R], FailedReqs = []\<rparr>" and pre = "[]"
      and q = ?R and rest = "[]" and e = demoEnv and ?s0.0 = demoState and s = demoState
      and lp = 0 and tx = 0] nil a
  show ?thesis by (auto simp: match_def)
qed

subsection \<open>Block committer: finalization\<close>


lemma queries_fold_removeFailed: "queries (fold removeFailed rs p) = queries p"
  by (induction rs arbitrary: p) (simp_all add: removeFailed_def)



subsection \<open>Read path\<close>

text \<open>What a read leaves as it is: the counters, the flag, the transaction handle and the
  pooled trackers.\<close>

lemma readSingle_frame:
  assumes "stateAfter (readSingle e (Some tx) q s) = Some s1"
  shows "sameWriter s s1 \<and> pool s1 = pool s \<and>
         (\<exists>calls. strg s1 = strg s @ calls \<and> list_all (isQueryOn tx) calls \<and>
            (succeeded (readSingle e (Some tx) q s) \<longrightarrow> length calls = 1))"
  using assms
  by (auto simp: readSingle_def stateAfter_def sameWriter_def Let_def isQueryOn_def
        succeeded_def split: sum.splits prod.splits)

lemma readSingle_not_Panic: "readSingle e (Some tx) q s \<noteq> Panic"
  by (simp add: readSingle_def Let_def split: sum.splits prod.splits)

lemma readTxLoop_frame:
  "\<exists>s1. stateAfter (readTxLoop e (Some tx) req i qs acc s) = Some s1 \<and>
     sameWriter s s1 \<and>
     (\<exists>calls. strg s1 = strg s @ calls \<and> list_all (isQueryOn tx) calls \<and>
        (succeeded (readTxLoop e (Some tx) req i qs acc s) \<longrightarrow> length calls = length qs))"
proof (induction qs arbitrary: s i acc)
  case Nil
  show ?case by (simp add: stateAfter_def sameWriter_def)
next
  case (Cons v vs)
  show ?case
  proof (cases "readSingle e (Some tx) v s")
    case Panic
    then show ?thesis by (simp add: readSingle_not_Panic)
  next
    case (Err s1 ierr)
    then have "stateAfter (readSingle e (Some tx) v s) = Some s1" by (simp add: stateAfter_def)
    from readSingle_frame [OF this] Err show ?thesis
      by (auto simp: stateAfter_def sameWriter_def setFailed_def succeeded_def)
  next
    case (Ok s1 rows)
    then have "stateAfter (readSingle e (Some tx) v s) = Some s1" by (simp add: stateAfter_def)
    from readSingle_frame [OF this] obtain c1 where
      f1: "sameWriter s s1" and c1: "strg s1 = strg s @ c1" "list_all (isQueryOn tx) c1"
        "length c1 = 1"
      using Ok by (auto simp: succeeded_def)
    from Cons.IH [of "Suc i" rows s1] obtain s2 c2 where
      r: "stateAfter (readTxLoop e (Some tx) req (Suc i) vs rows s1) = Some s2"
      and f2: "sameWriter s1 s2" and c2: "strg s2 = strg s1 @ c2" "list_all (isQueryOn tx) c2"
        "succeeded (readTxLoop e (Some tx) req (Suc i) vs rows s1) \<longrightarrow> length c2 = length vs"
      by blast
    have "strg s2 = strg s @ (c1 @ c2) \<and> list_all (isQueryOn tx) (c1 @ c2) \<and>
        (succeeded (readTxLoop e (Some tx) req i (v # vs) acc s) \<longrightarrow>
           length (c1 @ c2) = length (v # vs))"
      using c1 c2 Ok by simp
    then have "\<exists>calls. strg s2 = strg s @ calls \<and> list_all (isQueryOn tx) calls \<and>
        (succeeded (readTxLoop e (Some tx) req i (v # vs) acc s) \<longrightarrow>
           length calls = length (v # vs))" by blast
    moreover have "sameWriter s s2" using f1 f2 by (simp add: sameWriter_def)
    ultimately show ?thesis using Ok r by simp
  qed
qed

lemma readTxLoop_cases:
  assumes "stateAfter (readTxLoop e (Some tx) req i qs acc s) = Some s1"
  shows "(\<exists>err. readTxLoop e (Some tx) req i qs acc s = Err s1 err) \<or>
         (\<exists>rows. readTxLoop e (Some tx) req i qs acc s = Ok s1 rows)"
  using assms by (cases "readTxLoop e (Some tx) req i qs acc s") (simp_all add: stateAfter_def)

text \<open>
  Claim C7. A read leaves the writer state as it is: the counters, the schema-change
  flag, the handle of the open transaction and the pooled trackers. When the flag is 1
  \<open>readTx\<close> issues a savepoint named by \<open>current\<close>, runs the queries of the request on
  the open write transaction, and in every case ends with a rollback to that savepoint.
  When the flag is not 1 it opens a transaction on the dirty reader, runs the queries
  there and ends with the rollback of that transaction, with no commit. In both cases
  the \<open>LogOffset\<close> of the response is the value of \<open>current\<close> when the read started.
\<close>

theorem readTx_leaves_writer_state:
  assumes "unc s = Some tx"
  shows "\<exists>s' calls. stateAfter (readTx e req s) = Some s' \<and> sameWriter s s' \<and>
     (hasSchemaChange s = 1 \<longrightarrow>
        strg s' = strg s @ [savepointCall tx (current s)] @ calls @
                    [rollbackToCall tx (current s)] \<and>
        list_all (isQueryOn tx) calls) \<and>
     (hasSchemaChange s \<noteq> 1 \<and> dirtyBeginResult e (strg s) = None \<longrightarrow>
        strg s' = strg s @ [DirtyBegin] @ calls @ [TxRollback (length (strg s))] \<and>
        list_all (isQueryOn (length (strg s))) calls) \<and>
     (hasSchemaChange s \<noteq> 1 \<and> dirtyBeginResult e (strg s) \<noteq> None \<longrightarrow>
        strg s' = strg s @ [DirtyBegin] \<and> \<not> succeeded (readTx e req s)) \<and>
     (succeeded (readTx e req s) \<longrightarrow> length calls = length (Queries req)) \<and>
     (\<forall>ref resp. readTx e req s = Ok s' (ref, resp) \<longrightarrow> LogOffset (Header resp) = current s)"
proof (cases "hasSchemaChange s = 1")
  case True
  let ?s1 = "s\<lparr>strg := strg s @ [savepointCall tx (current s)]\<rparr>"
  let ?loop = "readTxLoop e (Some tx) req 0 (Queries req)
                 \<lparr>colNames = [], colTypes = [], rowData = []\<rparr> ?s1"
  have sp: "setSavepoint s = Ok ?s1 (current s)" by (rule setSavepoint_Some [OF assms])
  from readTxLoop_frame [of e tx req 0 "Queries req" _ ?s1] obtain s2 calls where
    st: "stateAfter ?loop = Some s2" and sw: "sameWriter ?s1 s2"
    and tr: "strg s2 = strg ?s1 @ calls" "list_all (isQueryOn tx) calls"
      "succeeded ?loop \<longrightarrow> length calls = length (Queries req)"
    by blast
  have u2: "unc s2 = Some tx" using sw assms by (simp add: sameWriter_def)
  note rb = rollbackTo_Some [OF u2, of "current s"]
  let ?s3 = "rolledBack tx (current s) s2"
  have sw3: "sameWriter s ?s3" using sw by (simp add: sameWriter_def rolledBack_def)
  have tr3: "strg ?s3 = strg s @ [savepointCall tx (current s)] @ calls @
      [rollbackToCall tx (current s)]"
    using tr(1) by (simp add: rolledBack_def)
  from readTxLoop_cases [OF st] show ?thesis
  proof
    assume "\<exists>err. ?loop = Err s2 err"
    then obtain err where l: "?loop = Err s2 err" ..
    have r: "readTx e req s = Err ?s3 err"
      using True sp l rb assms by (simp add: readTx_def getID_def Let_def)
    then have "stateAfter (readTx e req s) = Some ?s3" "\<not> succeeded (readTx e req s)"
      by (simp_all add: stateAfter_def succeeded_def)
    with sw3 tr3 tr(2) True r show ?thesis by auto
  next
    assume "\<exists>rows. ?loop = Ok s2 rows"
    then obtain rows where l: "?loop = Ok s2 rows" ..
    have r: "readTx e req s =
        Ok ?s3 (\<lparr>Req = req, Resp = None\<rparr>, buildReadResponse e req (current s) rows s2)"
      using True sp l rb assms by (simp add: readTx_def getID_def Let_def)
    then have a: "stateAfter (readTx e req s) = Some ?s3" by (simp add: stateAfter_def)
    have b: "length calls = length (Queries req)" using tr(3) l by (simp add: succeeded_def)
    have c: "LogOffset (Header (buildReadResponse e req (current s) rows s2)) = current s"
      by (simp add: buildReadResponse_def)
    from a b c sw3 tr3 tr(2) True r show ?thesis by auto
  qed
next
  case False
  let ?tx = "length (strg s)"
  let ?s1 = "s\<lparr>strg := strg s @ [DirtyBegin]\<rparr>"
  show ?thesis
  proof (cases "dirtyBeginResult e (strg s)")
    case (Some ierr)
    with False have r: "readTx e req s = Err ?s1 (Wrapf ierr OpenTxFailed)"
      by (simp add: readTx_def getID_def Let_def)
    then have "stateAfter (readTx e req s) = Some ?s1" "\<not> succeeded (readTx e req s)"
      by (simp_all add: stateAfter_def succeeded_def)
    moreover have "sameWriter s ?s1" by (simp add: sameWriter_def)
    ultimately show ?thesis using False Some r by auto
  next
    case None
    let ?loop = "readTxLoop e (Some ?tx) req 0 (Queries req)
                   \<lparr>colNames = [], colTypes = [], rowData = []\<rparr> ?s1"
    from readTxLoop_frame [of e ?tx req 0 "Queries req" _ ?s1] obtain s2 calls where
      st: "stateAfter ?loop = Some s2" and sw: "sameWriter ?s1 s2"
      and tr: "strg s2 = strg ?s1 @ calls" "list_all (isQueryOn ?tx) calls"
        "succeeded ?loop \<longrightarrow> length calls = length (Queries req)"
      by blast
    let ?s3 = "s2\<lparr>strg := strg s2 @ [TxRollback ?tx]\<rparr>"
    have sw3: "sameWriter s ?s3" using sw by (simp add: sameWriter_def)
    have tr3: "strg ?s3 = strg s @ [DirtyBegin] @ calls @ [TxRollback ?tx]"
      using tr(1) by simp
    from readTxLoop_cases [OF st] show ?thesis
    proof
      assume "\<exists>err. ?loop = Err s2 err"
      then obtain err where l: "?loop = Err s2 err" ..
      have r: "readTx e req s = Err ?s3 err"
        using False None l by (simp add: readTx_def getID_def Let_def)
      then have "stateAfter (readTx e req s) = Some ?s3" "\<not> succeeded (readTx e req s)"
        by (simp_all add: stateAfter_def succeeded_def)
      with sw3 tr3 tr(2) False None r show ?thesis by auto
    next
      assume "\<exists>rows. ?loop = Ok s2 rows"
      then obtain rows where l: "?loop = Ok s2 rows" ..
      have r: "readTx e req s =
          Ok ?s3 (\<lparr>Req = req, Resp = None\<rparr>, buildReadResponse e req (current s) rows s2)"
        using False None l by (simp add: readTx_def getID_def Let_def)
      then have a: "stateAfter (readTx e req s) = Some ?s3" by (simp add: stateAfter_def)
      have b: "length calls = length (Queries req)" using tr(3) l by (simp add: succeeded_def)
      have c: "LogOffset (Header (buildReadResponse e req (current s) rows s2)) = current s"
        by (simp add: buildReadResponse_def)
      from a b c sw3 tr3 tr(2) False None r show ?thesis by auto
    qed
  qed
qed

theorem readTx_leaves_writer_state_witness:
  "(\<exists>s' ref resp calls.
      readTx demoEnv (demoRequest ReadQuery [''SELECT'']) demoPooled = Ok s' (ref, resp) \<and>
      LogOffset (Header resp) = 101 \<and> current s' = 101 \<and> unc s' = Some 0 \<and>
      strg s' = strg demoPooled @ [DirtyBegin] @ calls @ [TxRollback 5] \<and>
      list_all (isQueryOn 5) calls \<and> length calls = 1) \<and>
   (\<exists>s' err calls.
      readTx demoEnv (demoRequest ReadQuery [''SELECT'', ''FAIL''])
        (demoState\<lparr>hasSchemaChange := 1\<rparr>) = Err s' err \<and>
      current s' = 100 \<and> hasSchemaChange s' = 1 \<and> unc s' = Some 0 \<and>
      strg s' = strg demoState @ [savepointCall 0 100] @ calls @ [rollbackToCall 0 100] \<and>
      list_all (isQueryOn 0) calls)"
proof -
  let ?r1 = "demoRequest ReadQuery [''SELECT'']"
  let ?r2 = "demoRequest ReadQuery [''SELECT'', ''FAIL'']"
  let ?s2 = "demoState\<lparr>hasSchemaChange := 1\<rparr>"
  have p: "unc demoPooled = Some 0" "current demoPooled = 101" "hasSchemaChange demoPooled \<noteq> 1"
    "dirtyBeginResult demoEnv (strg demoPooled) = None" "length (strg demoPooled) = 5"
    "length (Queries ?r1) = 1"
    by (simp_all add: demo_defs)
  have "\<exists>s' ref resp. readTx demoEnv ?r1 demoPooled = Ok s' (ref, resp)"
    by (simp add: readTx_def readSingle_def demo_defs step_defs)
  then obtain s1 ref resp where ok: "readTx demoEnv ?r1 demoPooled = Ok s1 (ref, resp)"
    by blast
  from readTx_leaves_writer_state [OF p(1), of demoEnv ?r1] obtain s' calls where
    t: "stateAfter (readTx demoEnv ?r1 demoPooled) = Some s' \<and> sameWriter demoPooled s' \<and>
     (hasSchemaChange demoPooled = 1 \<longrightarrow>
        strg s' = strg demoPooled @ [savepointCall 0 (current demoPooled)] @ calls @
                    [rollbackToCall 0 (current demoPooled)] \<and>
        list_all (isQueryOn 0) calls) \<and>
     (hasSchemaChange demoPooled \<noteq> 1 \<and> dirtyBeginResult demoEnv (strg demoPooled) = None \<longrightarrow>
        strg s' = strg demoPooled @ [DirtyBegin] @ calls @ [TxRollback (length (strg demoPooled))] \<and>
        list_all (isQueryOn (length (strg demoPooled))) calls) \<and>
     (hasSchemaChange demoPooled \<noteq> 1 \<and> dirtyBeginResult demoEnv (strg demoPooled) \<noteq> None \<longrightarrow>
        strg s' = strg demoPooled @ [DirtyBegin] \<and> \<not> succeeded (readTx demoEnv ?r1 demoPooled)) \<and>
     (succeeded (readTx demoEnv ?r1 demoPooled) \<longrightarrow> length calls = length (Queries ?r1)) \<and>
     (\<forall>ref resp. readTx demoEnv ?r1 demoPooled = Ok s' (ref, resp) \<longrightarrow>
        LogOffset (Header resp) = current demoPooled)"
    by (elim exE) 
  from t ok have e1: "s' = s1" by (simp add: stateAfter_def)
  from ok have su: "succeeded (readTx demoEnv ?r1 demoPooled)" by (simp add: succeeded_def)
  from t e1 ok su p have a: "LogOffset (Header resp) = 101 \<and> current s1 = 101 \<and> unc s1 = Some 0 \<and>
      strg s1 = strg demoPooled @ [DirtyBegin] @ calls @ [TxRollback 5] \<and>
      list_all (isQueryOn 5) calls \<and> length calls = 1"
    by (simp add: sameWriter_def)
  have q: "unc ?s2 = Some 0" "current ?s2 = 100" "hasSchemaChange ?s2 = 1"
    "strg ?s2 = strg demoState"
    by (simp_all add: demo_defs)
  have "\<exists>s' err. readTx demoEnv ?r2 ?s2 = Err s' err"
    by (simp add: readTx_def readSingle_def demo_defs step_defs)
  then obtain s3 err where er: "readTx demoEnv ?r2 ?s2 = Err s3 err"
    by blast
  from readTx_leaves_writer_state [OF q(1), of demoEnv ?r2] obtain s'' calls2 where
    t2: "stateAfter (readTx demoEnv ?r2 ?s2) = Some s'' \<and> sameWriter ?s2 s'' \<and>
     (hasSchemaChange ?s2 = 1 \<longrightarrow>
        strg s'' = strg ?s2 @ [savepointCall 0 (current ?s2)] @ calls2 @
                    [rollbackToCall 0 (current ?s2)] \<and>
        list_all (isQueryOn 0) calls2)"
    by (elim exE conjE) (intro that conjI, assumption+)
  from t2 er have e2: "s'' = s3" by (simp add: stateAfter_def)
  from t2 e2 q have b: "current s3 = 100 \<and> hasSchemaChange s3 = 1 \<and> unc s3 = Some 0 \<and>
      strg s3 = strg demoState @ [savepointCall 0 100] @ calls2 @ [rollbackToCall 0 100] \<and>
      list_all (isQueryOn 0) calls2"
    by (simp add: sameWriter_def)
  from ok a er b show ?thesis by blast
qed

end
